theory Spec2Isabelle
  imports Main "HOL-Library.Word"
begin

section \<open>The SPI slave handler of esp32-spi-slave\<close>

text \<open>
  A shallow embedding of \<^verbatim>\<open>app/lib/Communication/SPISlaveHandler.cpp\<close> and its header.
  The singleton handler object is a record that every member function takes and returns.
  Member names lose their leading underscore (\<^verbatim>\<open>_txLength\<close> is \<open>txLength\<close>).
  Calls into the platform (ESP-IDF driver, FreeRTOS semaphore, Arduino clock, heap) are
  not part of the repository: their results are arguments of the functions that make
  the calls, and what they do to the handler's view of the world is written out below.
\<close>

subsection \<open>Configuration constants (Config.h, SPISlaveHandler.h)\<close>

type_synonym byte = "8 word"
type_synonym addr = nat

abbreviation (input) nullptr :: addr where "nullptr \<equiv> 0"

definition SPI_BUFFER_SIZE :: nat where "SPI_BUFFER_SIZE = 8096"
definition SPI_BUFFER_POOL_SIZE :: nat where "SPI_BUFFER_POOL_SIZE = 6"
definition SPI_SCK_PIN :: int where "SPI_SCK_PIN = 12"
definition SPI_MISO_PIN :: int where "SPI_MISO_PIN = 13"
definition SPI_MOSI_PIN :: int where "SPI_MOSI_PIN = 15"
definition SPI_ESP32_SS :: int where "SPI_ESP32_SS = 14"
definition SPI_MODE0 :: byte where "SPI_MODE0 = 0"

text \<open>\<^verbatim>\<open>const size_t _maxQueueSize = 10\<close>: a constant member of the class.\<close>

definition maxQueueSize :: nat where "maxQueueSize = 10"

type_synonym esp_err_t = int

definition ESP_OK :: esp_err_t where "ESP_OK = 0"
definition ESP_FAIL :: esp_err_t where "ESP_FAIL = - 1"

text \<open>The opcodes of \<^verbatim>\<open>enum class SPICommand : uint8_t\<close>.\<close>

definition PING :: byte where "PING = 0x01"
definition PONG :: byte where "PONG = 0x02"
definition CAMERA_DATA_REQUEST :: byte where "CAMERA_DATA_REQUEST = 0x20"
definition CAMERA_DATA_BLOCK_REQUEST :: byte where "CAMERA_DATA_BLOCK_REQUEST = 0x22"
definition ACK :: byte where "ACK = 0xAA"
definition NACK :: byte where "NACK = 0xFF"

subsection \<open>Data\<close>

text \<open>
  \<^verbatim>\<open>struct SPIDataPacket\<close>: the constructor copies \<open>len\<close> bytes out of the source
  buffer into storage the packet owns, so a packet is held by value.
\<close>

record SPIDataPacket =
  pdata :: "byte list"
  plength :: nat
  processed :: bool

text \<open>
  \<^verbatim>\<open>struct SPIBuffer\<close>: a pool entry is a pointer and a flag. The bytes a pointer
  refers to live in the heap, so that \<^verbatim>\<open>returnBuffer\<close>'s pointer comparison and the
  fallback allocation of \<^verbatim>\<open>getBuffer\<close> are modelled as they are written.
\<close>

record SPIBuffer =
  data :: addr
  inUse :: bool

type_synonym heap = "addr \<rightharpoonup> byte list"

text \<open>
  The mutex behind \<^verbatim>\<open>_queueSemaphore\<close>, as the running function sees it: either it
  can be taken, or another context holds it for longer than the caller waits.
\<close>

datatype semaphore = Available | Held

text \<open>
  What the ESP-IDF slave driver holds for \<^verbatim>\<open>HSPI_HOST\<close>: whether
  \<^verbatim>\<open>spi_slave_initialize\<close> has installed it (and \<^verbatim>\<open>spi_slave_free\<close> has not removed it
  since), and how many transfer descriptors have been submitted to it.
\<close>

record spi_host =
  installed :: bool
  queued :: nat

text \<open>
  The handler. The two persistent buffers \<^verbatim>\<open>_txBuffer\<close> and \<^verbatim>\<open>_rxBuffer\<close> are owned by
  the handler alone, never compared with another pointer and never freed while it lives;
  they are held by value (the constructor writes through both pointers unconditionally,
  so a handler exists only when both allocations succeeded). The transfer descriptor
  \<^verbatim>\<open>_transaction\<close> points at these two buffers; its length field is \<open>transaction_length\<close>.
  \<open>receiveCallback\<close> is the registered function pointer, \<open>None\<close> for \<^verbatim>\<open>nullptr\<close>.
\<close>

record handler =
  txBuffer :: "byte list"
  rxBuffer :: "byte list"
  bufferSize :: nat
  txLength :: nat
  dataReady :: bool
  needsNewTransaction :: bool
  lastTransactionTime :: "32 word"
  transactionTimeout :: "32 word"
  transactionActive :: bool
  transactionCount :: "32 word"
  recoveryAttempts :: "32 word"
  receiveQueue :: "SPIDataPacket list"
  queueSemaphore :: semaphore
  bufferPool :: "SPIBuffer list"
  heap :: heap
  receiveCallback :: "nat option"
  transaction_length :: nat
  initialized :: bool
  sckPin :: byte
  misoPin :: byte
  mosiPin :: byte
  csPin :: byte
  mode :: byte
  hspi :: spi_host

subsection \<open>Platform primitives\<close>

text \<open>
  \<^verbatim>\<open>memset\<close> and \<^verbatim>\<open>memcpy\<close> on a block of bytes. C++ leaves both undefined when \<open>n\<close>
  exceeds a block involved; the handler only calls them with \<open>n\<close> within both blocks.
\<close>

definition memset :: "byte list \<Rightarrow> byte \<Rightarrow> nat \<Rightarrow> byte list" where
  "memset dst v n = replicate n v @ drop n dst"

definition memcpy :: "byte list \<Rightarrow> byte list \<Rightarrow> nat \<Rightarrow> byte list" where
  "memcpy dst src n = take n src @ drop n dst"

text \<open>
  \<^verbatim>\<open>heap_caps_malloc(n, caps)\<close>. The allocator's choice is the argument \<open>blk\<close>: the
  address of the block and the bytes found there. A usable choice is a non-null address
  that is not allocated yet, with \<open>n\<close> bytes; anything else stands for a failed
  allocation, which returns \<^verbatim>\<open>nullptr\<close>.
\<close>

definition heap_caps_malloc :: "nat \<Rightarrow> addr \<times> byte list \<Rightarrow> heap \<Rightarrow> addr \<times> heap" where
  "heap_caps_malloc n blk h =
     (case blk of (a, junk) \<Rightarrow>
        if a \<noteq> nullptr \<and> h a = None \<and> length junk = n then (a, h(a \<mapsto> junk))
        else (nullptr, h))"

definition heap_caps_free :: "addr \<Rightarrow> heap \<Rightarrow> heap" where
  "heap_caps_free p h = h(p := None)"

text \<open>
  Writing through a pointer: the block at \<open>p\<close> is replaced by \<open>f\<close> of it. Through a
  pointer with no block behind it (null or dangling) the C++ is undefined; the model
  leaves the heap as it is. The handler itself never does that: it writes only through
  pointers it got from a successful allocation.
\<close>

definition heap_write :: "addr \<Rightarrow> (byte list \<Rightarrow> byte list) \<Rightarrow> heap \<Rightarrow> heap" where
  "heap_write p f h = (case h p of None \<Rightarrow> h | Some bs \<Rightarrow> h(p \<mapsto> f bs))"

text \<open>
  \<^verbatim>\<open>xSemaphoreTake\<close> (with any bounded wait) and \<^verbatim>\<open>xSemaphoreTakeFromISR\<close> succeed
  exactly when the mutex is available. Every function of the handler that takes the
  mutex gives it back before it returns, so a successful take leaves the field as it was.
\<close>

definition xSemaphoreTake :: "handler \<Rightarrow> bool" where
  "xSemaphoreTake s = (queueSemaphore s = Available)"

text \<open>
  The driver calls. Each returns the error code given as \<open>ret\<close> (the driver's decision);
  on \<^verbatim>\<open>ESP_OK\<close> the host is installed, respectively one more descriptor is queued.
  \<^verbatim>\<open>spi_slave_free\<close> removes the driver and its queued descriptors.
\<close>

definition spi_slave_initialize :: "esp_err_t \<Rightarrow> handler \<Rightarrow> esp_err_t \<times> handler" where
  "spi_slave_initialize ret s =
     (if ret = ESP_OK then (ret, s\<lparr>hspi := (hspi s)\<lparr>installed := True\<rparr>\<rparr>) else (ret, s))"

definition spi_slave_queue_trans :: "esp_err_t \<Rightarrow> handler \<Rightarrow> esp_err_t \<times> handler" where
  "spi_slave_queue_trans ret s =
     (if ret = ESP_OK then (ret, s\<lparr>hspi := (hspi s)\<lparr>queued := Suc (queued (hspi s))\<rparr>\<rparr>)
      else (ret, s))"

definition spi_slave_free :: "handler \<Rightarrow> handler" where
  "spi_slave_free s = s\<lparr>hspi := \<lparr>installed = False, queued = 0\<rparr>\<rparr>"

subsection \<open>Construction\<close>

text \<open>
  The constructor's pool loop: one allocation per entry, zeroed when it succeeded.
  \<open>blks\<close> lists the allocator's choices, one per entry; the constructor takes them as
  \<open>blk i\<close> for the loop index \<open>i\<close>. The handler is the function-local static of
  \<^verbatim>\<open>getInstance()\<close>, so what the constructor does not set (the transfer descriptor) is
  zero, and the driver is not installed yet.
\<close>

fun alloc_pool :: "nat \<Rightarrow> (addr \<times> byte list) list \<Rightarrow> heap \<Rightarrow> SPIBuffer list \<times> heap" where
  "alloc_pool n [] h = ([], h)"
| "alloc_pool n (blk # blks) h =
     (let (p, h1) = heap_caps_malloc n blk h;
          h2 = (if p = nullptr then h1 else heap_write p (\<lambda>bs. memset bs 0 n) h1);
          (pool, h3) = alloc_pool n blks h2
      in (\<lparr>data = p, inUse = False\<rparr> # pool, h3))"

definition SPISlaveHandler :: "(nat \<Rightarrow> addr \<times> byte list) \<Rightarrow> handler" where
  "SPISlaveHandler blk =
     (let (pool, h) =
        alloc_pool SPI_BUFFER_SIZE (map blk [0..<SPI_BUFFER_POOL_SIZE]) Map.empty
      in \<lparr>txBuffer = replicate SPI_BUFFER_SIZE 0,
          rxBuffer = replicate SPI_BUFFER_SIZE 0,
          bufferSize = SPI_BUFFER_SIZE,
          txLength = 0,
          dataReady = False,
          needsNewTransaction = False,
          lastTransactionTime = 0,
          transactionTimeout = 3000,
          transactionActive = False,
          transactionCount = 0,
          recoveryAttempts = 0,
          receiveQueue = [],
          queueSemaphore = Available,
          bufferPool = pool,
          heap = h,
          receiveCallback = None,
          transaction_length = 0,
          initialized = False,
          sckPin = 0,
          misoPin = 0,
          mosiPin = 0,
          csPin = 0,
          mode = SPI_MODE0,
          hspi = \<lparr>installed = False, queued = 0\<rparr>\<rparr>)"

subsection \<open>The buffer pool\<close>

text \<open>
  The loop of \<^verbatim>\<open>getBuffer\<close>: the first entry that is not in use and has a buffer is
  marked in use and its pointer returned; \<open>None\<close> when the loop runs to its end.
\<close>

fun getBuffer_scan :: "SPIBuffer list \<Rightarrow> (addr \<times> SPIBuffer list) option" where
  "getBuffer_scan [] = None"
| "getBuffer_scan (b # bs) =
     (if \<not> inUse b \<and> data b \<noteq> nullptr then Some (data b, b\<lparr>inUse := True\<rparr> # bs)
      else (case getBuffer_scan bs of
              None \<Rightarrow> None
            | Some (p, bs') \<Rightarrow> Some (p, b # bs')))"

definition getBuffer :: "addr \<times> byte list \<Rightarrow> handler \<Rightarrow> addr \<times> handler" where
  "getBuffer blk s =
     (case getBuffer_scan (bufferPool s) of
        Some (p, pool') \<Rightarrow> (p, s\<lparr>bufferPool := pool'\<rparr>)
      | None \<Rightarrow>
          (let (p, h') = heap_caps_malloc (bufferSize s) blk (heap s)
           in (p, s\<lparr>heap := h'\<rparr>)))"

text \<open>
  The loop of \<^verbatim>\<open>returnBuffer\<close>: the first entry whose pointer equals \<open>buffer\<close> is
  marked free; \<open>None\<close> when no entry has that pointer.
\<close>

fun returnBuffer_scan :: "SPIBuffer list \<Rightarrow> addr \<Rightarrow> SPIBuffer list option" where
  "returnBuffer_scan [] buffer = None"
| "returnBuffer_scan (b # bs) buffer =
     (if data b = buffer then Some (b\<lparr>inUse := False\<rparr> # bs)
      else (case returnBuffer_scan bs buffer of
              None \<Rightarrow> None
            | Some bs' \<Rightarrow> Some (b # bs')))"

definition returnBuffer :: "addr \<Rightarrow> handler \<Rightarrow> handler" where
  "returnBuffer buffer s =
     (case returnBuffer_scan (bufferPool s) buffer of
        Some pool' \<Rightarrow>
          s\<lparr>bufferPool := pool',
            heap := heap_write buffer (\<lambda>bs. memset bs 0 (bufferSize s)) (heap s)\<rparr>
      | None \<Rightarrow> s\<lparr>heap := heap_caps_free buffer (heap s)\<rparr>)"

subsection \<open>Queue length and flow-control percentage\<close>

definition pendingReceiveCount :: "handler \<Rightarrow> nat" where
  "pendingReceiveCount s =
     (if xSemaphoreTake s then length (receiveQueue s) else 0)"

text \<open>
  \<^verbatim>\<open>return (queueSize * 100) / _maxQueueSize\<close>: computed in \<^verbatim>\<open>size_t\<close> (32 bits on
  the ESP32) and narrowed to the \<^verbatim>\<open>uint8_t\<close> return type.
\<close>

definition getBufferStatus :: "handler \<Rightarrow> byte" where
  "getBufferStatus s =
     (let queueSize = (of_nat (pendingReceiveCount s) :: 32 word)
      in ucast ((queueSize * 100) div of_nat maxQueueSize))"

subsection \<open>Staging outbound data\<close>

text \<open>
  \<open>txData\<close> is \<open>None\<close> for a null pointer, otherwise the bytes it points at (at least
  \<open>len\<close> of them, or the \<^verbatim>\<open>memcpy\<close> reads out of bounds).
\<close>

definition prepareDataToSend :: "byte list option \<Rightarrow> nat \<Rightarrow> handler \<Rightarrow> bool \<times> handler" where
  "prepareDataToSend txData len s =
     (if \<not> initialized s then (False, s)
      else if txData = None \<or> len = 0 \<or> len > bufferSize s then (False, s)
      else
        (True,
         s\<lparr>txBuffer := memcpy (memset (txBuffer s) 0 (bufferSize s)) (the txData) len,
           txLength := len,
           dataReady := True\<rparr>))"

definition isReadyToSend :: "handler \<Rightarrow> bool" where
  "isReadyToSend s = (initialized s \<and> \<not> dataReady s)"

definition setReceiveCallback :: "nat option \<Rightarrow> handler \<Rightarrow> handler" where
  "setReceiveCallback callback s = s\<lparr>receiveCallback := callback\<rparr>"

subsection \<open>The completion and start callbacks\<close>

definition new_SPIDataPacket :: "byte list \<Rightarrow> nat \<Rightarrow> SPIDataPacket" where
  "new_SPIDataPacket srcData len = \<lparr>pdata = take len srcData, plength = len, processed = False\<rparr>"

text \<open>Reading the block behind a pointer (no bytes where there is no block).\<close>

definition deref :: "heap \<Rightarrow> addr \<Rightarrow> byte list" where
  "deref h p = (case h p of None \<Rightarrow> [] | Some bs \<Rightarrow> bs)"

text \<open>
  \<^verbatim>\<open>onSpiTransaction(trans)\<close>. The static instance pointer is set by the constructor, so
  the callback always finds the handler. \<open>now\<close> is what \<^verbatim>\<open>millis()\<close> returns,
  \<open>trans_len\<close> the descriptor's \<^verbatim>\<open>trans_len\<close> (bits transferred); the descriptor's
  \<^verbatim>\<open>rx_buffer\<close> is the handler's \<open>rxBuffer\<close>. \<open>blk\<close> is the allocator's choice, should
  \<^verbatim>\<open>getBuffer\<close> fall back to the heap.

  The callback asks for the mutex twice, at two different times: first inside
  \<^verbatim>\<open>pendingReceiveCount()\<close>, which finds the mutex as the state has it when the callback
  starts, and later with \<^verbatim>\<open>xSemaphoreTakeFromISR\<close>. Another context (a task on the other
  core) may have taken or given back the mutex in between: \<open>sem\<close> is the mutex as the
  second call finds it.
\<close>

definition onSpiTransaction ::
  "32 word \<Rightarrow> nat \<Rightarrow> addr \<times> byte list \<Rightarrow> semaphore \<Rightarrow> handler \<Rightarrow> handler"
where
  "onSpiTransaction now trans_len blk sem s =
     (let s1 = s\<lparr>lastTransactionTime := now,
                 transactionActive := False,
                 transactionCount := transactionCount s + 1\<rparr>;
          rxBytes = trans_len div 8
      in if rxBytes = 0 then s1
         else
           (let queueFull = (pendingReceiveCount s1 \<ge> maxQueueSize);
                s2 =
                  (if \<not> queueFull then
                     (let (packetBuffer, s3) = getBuffer blk s1
                      in if packetBuffer \<noteq> nullptr then
                           (let s4 = s3\<lparr>heap := heap_write packetBuffer
                                           (\<lambda>bs. memcpy bs (rxBuffer s3) rxBytes) (heap s3)\<rparr>;
                                packet = new_SPIDataPacket (deref (heap s4) packetBuffer) rxBytes;
                                s5 = returnBuffer packetBuffer s4;
                                s6 = s5\<lparr>queueSemaphore := sem\<rparr>
                            in if xSemaphoreTake s6
                               then s6\<lparr>receiveQueue := receiveQueue s6 @ [packet]\<rparr>
                               else s6)
                         else s3)
                   else s1)
            in s2\<lparr>rxBuffer := memset (rxBuffer s2) 0 (bufferSize s2),
                  dataReady := False,
                  needsNewTransaction := True\<rparr>))"

definition onSpiPreTransaction :: "handler \<Rightarrow> handler" where
  "onSpiPreTransaction s = s\<lparr>transactionActive := True\<rparr>"

subsection \<open>Initialisation\<close>

text \<open>
  The loop that queues the initial descriptors, over the loop indices; \<open>ret_queue i\<close> is
  the driver's answer to the submission of iteration \<open>i\<close>. The loop returns at the first
  failure. \<^verbatim>\<open>init\<close> copies the pins, the mode and the buffer size into the bus and
  interface configuration that it hands to the driver; nothing reads those structs again,
  and the model keeps the fields they are copied from.
\<close>

fun init_queue_loop :: "nat list \<Rightarrow> (nat \<Rightarrow> esp_err_t) \<Rightarrow> handler \<Rightarrow> bool \<times> handler" where
  "init_queue_loop [] ret_queue s = (True, s)"
| "init_queue_loop (i # is) ret_queue s =
     (let (ret, s') = spi_slave_queue_trans (ret_queue i) s
      in if ret \<noteq> ESP_OK then (False, s') else init_queue_loop is ret_queue s')"

definition init ::
  "int \<Rightarrow> int \<Rightarrow> int \<Rightarrow> int \<Rightarrow> byte \<Rightarrow> esp_err_t \<Rightarrow> (nat \<Rightarrow> esp_err_t) \<Rightarrow> handler \<Rightarrow> bool \<times> handler"
where
  "init sck miso mosi cs md ret_init ret_queue s =
     (if initialized s then (True, s)
      else
        (let s1 = s\<lparr>mode := md,
                    sckPin := of_int (if sck \<noteq> - 1 then sck else SPI_SCK_PIN),
                    misoPin := of_int (if miso \<noteq> - 1 then miso else SPI_MISO_PIN),
                    mosiPin := of_int (if mosi \<noteq> - 1 then mosi else SPI_MOSI_PIN),
                    csPin := of_int (if cs \<noteq> - 1 then cs else SPI_ESP32_SS)\<rparr>;
             (ret, s2) = spi_slave_initialize ret_init s1
         in if ret \<noteq> ESP_OK then (False, s2)
            else
              (let s3 = s2\<lparr>transaction_length := bufferSize s2 * 8\<rparr>;
                   (ok, s4) = init_queue_loop [0..<3] ret_queue s3
               in if \<not> ok then (False, s4)
                  else (True, s4\<lparr>initialized := True\<rparr>))))"

definition ensureTransactionQueued :: "esp_err_t \<Rightarrow> handler \<Rightarrow> bool \<times> handler" where
  "ensureTransactionQueued ret_q s =
     (if \<not> initialized s then (False, s)
      else if needsNewTransaction s then
        (let s1 = s\<lparr>transaction_length := bufferSize s * 8\<rparr>;
             (ret, s2) = spi_slave_queue_trans ret_q s1
         in if ret \<noteq> ESP_OK then (False, s2)
            else (True, s2\<lparr>needsNewTransaction := False\<rparr>))
      else (False, s))"

subsection \<open>The command protocol\<close>

text \<open>
  \<open>run_cb f d n\<close> is what calling the registered function pointer \<open>f\<close> on \<open>(d, n)\<close>
  does to the handler. \<open>d\<close> is the packet's data, \<open>n\<close> its length.
\<close>

definition handleReceivedData ::
  "(nat \<Rightarrow> byte list \<Rightarrow> nat \<Rightarrow> handler \<Rightarrow> handler) \<Rightarrow> byte list \<Rightarrow> nat \<Rightarrow> handler \<Rightarrow> handler"
where
  "handleReceivedData run_cb d n s =
     (case receiveCallback s of
        Some f \<Rightarrow> run_cb f d n s
      | None \<Rightarrow>
          if n > 0 then
            if d ! 0 < 0xFF then
              if d ! 0 = PING then
                snd (prepareDataToSend (Some [PONG, 0x00, getBufferStatus s, 0x00]) 4 s)
              else if d ! 0 = CAMERA_DATA_REQUEST then s
              else if d ! 0 = CAMERA_DATA_BLOCK_REQUEST then s
              else if d ! 0 = ACK then s
              else if d ! 0 = NACK then s
              else s
            else s
          else s)"

definition processNextReceive ::
  "(nat \<Rightarrow> byte list \<Rightarrow> nat \<Rightarrow> handler \<Rightarrow> handler) \<Rightarrow> handler \<Rightarrow> bool \<times> handler"
where
  "processNextReceive run_cb s =
     (if receiveQueue s = [] then (False, s)
      else if \<not> xSemaphoreTake s then (False, s)
      else
        (case receiveQueue s of
           [] \<Rightarrow> (False, s)
         | packet # rest \<Rightarrow>
             (True, handleReceivedData run_cb (pdata packet) (plength packet)
                      (s\<lparr>receiveQueue := rest\<rparr>))))"

subsection \<open>Watchdog and recovery\<close>

text \<open>The loop that pops and deletes packets until the queue is empty.\<close>

fun drain :: "SPIDataPacket list \<Rightarrow> SPIDataPacket list" where
  "drain [] = []"
| "drain (packet # rest) = drain rest"

text \<open>
  \<open>ret_init\<close> and \<open>ret_queue\<close> are the driver's answers to the calls made by the nested
  \<^verbatim>\<open>init\<close>, \<open>now\<close> is what \<^verbatim>\<open>millis()\<close> returns after it. \<^verbatim>\<open>delay(100)\<close> changes nothing
  in the handler.
\<close>

definition resetSPIInterface ::
  "esp_err_t \<Rightarrow> (nat \<Rightarrow> esp_err_t) \<Rightarrow> 32 word \<Rightarrow> handler \<Rightarrow> bool \<times> handler"
where
  "resetSPIInterface ret_init ret_queue now s =
     (let s1 = s\<lparr>recoveryAttempts := recoveryAttempts s + 1\<rparr>;
          s2 = (if initialized s1 then (spi_slave_free s1)\<lparr>initialized := False\<rparr> else s1);
          (result, s3) =
             init (uint (sckPin s2)) (uint (misoPin s2)) (uint (mosiPin s2)) (uint (csPin s2))
               (mode s2) ret_init ret_queue s2
      in if result then
           (let s4 = s3\<lparr>transactionActive := False, lastTransactionTime := now\<rparr>;
                s5 = s4\<lparr>txBuffer := memset (txBuffer s4) 0 (bufferSize s4),
                        rxBuffer := memset (rxBuffer s4) 0 (bufferSize s4),
                        txLength := 0,
                        dataReady := False\<rparr>;
                s6 = (if xSemaphoreTake s5
                      then s5\<lparr>receiveQueue := drain (receiveQueue s5)\<rparr>
                      else s5);
                s7 = snd (prepareDataToSend (Some [0xAA, 0x55, 0xAA, 0x55]) 4 s6)
            in (result, s7))
         else (result, s3))"

text \<open>
  \<open>now\<close> is \<^verbatim>\<open>millis()\<close> at the start of the poll; \<open>ret_init\<close>, \<open>ret_queue\<close> and \<open>now'\<close>
  are handed to \<^verbatim>\<open>resetSPIInterface\<close>, \<open>ret_q\<close> to \<^verbatim>\<open>ensureTransactionQueued\<close>.
  All time arithmetic is \<^verbatim>\<open>unsigned long\<close>, 32 bits wide.
\<close>

definition checkAndRecoverFromStalledTransaction ::
  "32 word \<Rightarrow> esp_err_t \<Rightarrow> (nat \<Rightarrow> esp_err_t) \<Rightarrow> 32 word \<Rightarrow> esp_err_t \<Rightarrow> handler \<Rightarrow> bool \<times> handler"
where
  "checkAndRecoverFromStalledTransaction now ret_init ret_queue now' ret_q s =
     (if \<not> initialized s then (False, s)
      else
        (let currentTime = now;
             timeSinceLastTransaction = currentTime - lastTransactionTime s;
             missed =
               (if needsNewTransaction s then (True, snd (ensureTransactionQueued ret_q s))
                else (False, s))
         in if transactionActive s \<and> timeSinceLastTransaction > transactionTimeout s
            then resetSPIInterface ret_init ret_queue now' s
            else if timeSinceLastTransaction > transactionTimeout s * 2
            then (if initialized s \<and> transactionCount s > 0
                  then resetSPIInterface ret_init ret_queue now' s
                  else missed)
            else missed))"

subsection \<open>Reachable states\<close>

text \<open>
  The states of a handler in use: the constructed one, and what every member function
  and both driver callbacks make of a reachable state, with any results of the platform
  calls. A caller of \<^verbatim>\<open>prepareDataToSend\<close> passes a pointer to at least \<open>len\<close> bytes.
  Between calls, the hardware may have written a transfer into the receive buffer, and
  another context may have taken or given back the queue mutex. \<open>run_cb\<close> is the effect
  of the registered callbacks, as in \<^verbatim>\<open>handleReceivedData\<close>.
\<close>

inductive reachable :: "(nat \<Rightarrow> byte list \<Rightarrow> nat \<Rightarrow> handler \<Rightarrow> handler) \<Rightarrow> handler \<Rightarrow> bool"
  for run_cb :: "nat \<Rightarrow> byte list \<Rightarrow> nat \<Rightarrow> handler \<Rightarrow> handler"
where
  constructed: "reachable run_cb (SPISlaveHandler blk)"
| initialised:
    "reachable run_cb s \<Longrightarrow> reachable run_cb (snd (init sck miso mosi cs md ret_init ret_queue s))"
| staged:
    "reachable run_cb s \<Longrightarrow> (\<forall>d. txData = Some d \<longrightarrow> len \<le> length d) \<Longrightarrow>
     reachable run_cb (snd (prepareDataToSend txData len s))"
| processed: "reachable run_cb s \<Longrightarrow> reachable run_cb (snd (processNextReceive run_cb s))"
| callback_set: "reachable run_cb s \<Longrightarrow> reachable run_cb (setReceiveCallback callback s)"
| requeued: "reachable run_cb s \<Longrightarrow> reachable run_cb (snd (ensureTransactionQueued ret_q s))"
| polled:
    "reachable run_cb s \<Longrightarrow>
     reachable run_cb
       (snd (checkAndRecoverFromStalledTransaction now ret_init ret_queue now' ret_q s))"
| reset: "reachable run_cb s \<Longrightarrow> reachable run_cb (snd (resetSPIInterface ret_init ret_queue now s))"
| completed:
    "reachable run_cb s \<Longrightarrow> reachable run_cb (onSpiTransaction now trans_len blk sem s)"
| started: "reachable run_cb s \<Longrightarrow> reachable run_cb (onSpiPreTransaction s)"
| received:
    "reachable run_cb s \<Longrightarrow> n \<le> length bytes \<Longrightarrow> n \<le> bufferSize s \<Longrightarrow>
     reachable run_cb (s\<lparr>rxBuffer := memcpy (rxBuffer s) bytes n\<rparr>)"
| contention: "reachable run_cb s \<Longrightarrow> reachable run_cb (s\<lparr>queueSemaphore := sem\<rparr>)"

text \<open>
  The callbacks considered are code outside the handler, which reaches the handler only
  through the member functions above: none of those pushes to the receive queue, changes
  the buffer size or resizes a persistent buffer, so a callback does not either.
\<close>

definition quiet :: "(nat \<Rightarrow> byte list \<Rightarrow> nat \<Rightarrow> handler \<Rightarrow> handler) \<Rightarrow> bool" where
  "quiet run_cb =
     (\<forall>f d n s. length (receiveQueue (run_cb f d n s)) \<le> length (receiveQueue s)
        \<and> bufferSize (run_cb f d n s) = bufferSize s
        \<and> length (txBuffer (run_cb f d n s)) = length (txBuffer s)
        \<and> length (rxBuffer (run_cb f d n s)) = length (rxBuffer s))"

text \<open>The persistent buffers as the constructor allocates them.\<close>

definition buffers_ok :: "handler \<Rightarrow> bool" where
  "buffers_ok s =
     (bufferSize s = SPI_BUFFER_SIZE \<and> length (txBuffer s) = SPI_BUFFER_SIZE
      \<and> length (rxBuffer s) = SPI_BUFFER_SIZE)"

subsection \<open>Example states\<close>

text \<open>
  A freshly constructed handler whose six pool allocations succeeded at the addresses
  16 to 21, and the same handler after a successful \<^verbatim>\<open>init()\<close> with the default pins.
\<close>

definition fresh :: handler where
  "fresh = SPISlaveHandler (\<lambda>i. (16 + i, replicate SPI_BUFFER_SIZE 0))"

definition ready :: handler where
  "ready = snd (init (- 1) (- 1) (- 1) (- 1) SPI_MODE0 ESP_OK (\<lambda>i. ESP_OK) fresh)"

text \<open>
  \<open>k\<close> completed four-byte transfers, one after the other, at time 1000, the mutex free
  throughout.
\<close>

fun completions :: "nat \<Rightarrow> handler \<Rightarrow> handler" where
  "completions 0 s = s"
| "completions (Suc k) s = onSpiTransaction 1000 32 (0, []) Available (completions k s)"

text \<open>
  The example handler between completions: pool and heap as constructed, the mutex free,
  no transfer active, \<open>k\<close> packets queued and counted.
\<close>

definition settled :: "nat \<Rightarrow> handler \<Rightarrow> bool" where
  "settled k s =
     (bufferPool s = bufferPool fresh \<and> heap s = heap fresh
      \<and> bufferSize s = SPI_BUFFER_SIZE \<and> queueSemaphore s = Available
      \<and> length (receiveQueue s) = k \<and> initialized s \<and> receiveCallback s = None
      \<and> txBuffer s = replicate SPI_BUFFER_SIZE 0 \<and> rxBuffer s = replicate SPI_BUFFER_SIZE 0
      \<and> transactionCount s = of_nat k \<and> recoveryAttempts s = 0
      \<and> \<not> transactionActive s \<and> transactionTimeout s = 3000
      \<and> lastTransactionTime s = (if k = 0 then 0 else 1000))"

text \<open>An initialised, idle handler that has completed one transfer, at time 1000.\<close>

definition served :: handler where
  "served = completions 1 ready"

text \<open>An initialised handler with three packets queued and the mutex free.\<close>

definition backlog :: handler where
  "backlog = completions 3 ready"

text \<open>An initialised handler with three packets queued while another context holds the mutex.\<close>

definition contended :: handler where
  "contended = backlog\<lparr>queueSemaphore := Held\<rparr>"

text \<open>An initialised handler with one packet queued while another context holds the mutex.\<close>

definition jammed :: handler where
  "jammed = served\<lparr>queueSemaphore := Held\<rparr>"

text \<open>
  An initialised handler after ten completed transfers: its receive queue holds the
  maximum of ten packets.
\<close>

definition full :: handler where
  "full = completions 10 ready"

text \<open>
  The handler with the full queue at the moment another context holds the mutex.
\<close>

definition full_locked :: handler where
  "full_locked = full\<lparr>queueSemaphore := Held\<rparr>"

text \<open>
  The handler that completed one transfer at time 1000, after the watchdog poll at time
  7001 that found the link silent and recovered it; the recovery ended at time 7101.
\<close>

definition recovered :: handler where
  "recovered =
     snd (checkAndRecoverFromStalledTransaction 7001 ESP_OK (\<lambda>i. ESP_OK) 7101 ESP_OK served)"

text \<open>An initialised handler with a three-byte payload staged.\<close>

definition staged :: handler where
  "staged = snd (prepareDataToSend (Some [0x31, 0x00, 0x07]) 3 ready)"

subsection \<open>Runs of the buffer pool\<close>

text \<open>
  The calls made on the pool: \<^verbatim>\<open>getBuffer()\<close> (with the allocator's choice, should it
  fall back to the heap), \<^verbatim>\<open>returnBuffer(p)\<close>, and in between the write a holder makes
  into its buffer, as \<^verbatim>\<open>onSpiTransaction\<close> does with
  \<^verbatim>\<open>memcpy(packetBuffer, trans->rx_buffer, rxBytes)\<close>.
\<close>

datatype pool_call = Get "addr \<times> byte list" | Fill addr "byte list" nat | Return addr

fun step :: "pool_call \<Rightarrow> handler \<Rightarrow> handler" where
  "step (Get blk) s = snd (getBuffer blk s)"
| "step (Fill p src n) s = s\<lparr>heap := heap_write p (\<lambda>bs. memcpy bs src n) (heap s)\<rparr>"
| "step (Return p) s = returnBuffer p s"

fun run :: "pool_call list \<Rightarrow> handler \<Rightarrow> handler" where
  "run [] s = s"
| "run (c # cs) s = run cs (step c s)"

text \<open>
  A write is the holder's: it stays within the source and the buffer, and its target is
  not a pool buffer that is currently free. Any \<^verbatim>\<open>getBuffer\<close> or \<^verbatim>\<open>returnBuffer\<close> call
  is admitted.
\<close>

fun admitted :: "pool_call \<Rightarrow> handler \<Rightarrow> bool" where
  "admitted (Fill p src n) s =
     (n \<le> length src \<and> n \<le> bufferSize s
      \<and> list_all (\<lambda>b. data b \<noteq> p \<or> inUse b) (bufferPool s))"
| "admitted c s = True"

fun legal :: "pool_call list \<Rightarrow> handler \<Rightarrow> bool" where
  "legal [] s = True"
| "legal (c # cs) s = (admitted c s \<and> legal cs (step c s))"

text \<open>Whether some \<^verbatim>\<open>getBuffer\<close> call of the run of \<open>cs\<close> from \<open>s\<close> returns \<open>p\<close>.\<close>

fun returned :: "pool_call list \<Rightarrow> handler \<Rightarrow> addr \<Rightarrow> bool" where
  "returned [] s p = False"
| "returned (Get blk # cs) s p =
     (fst (getBuffer blk s) = p \<or> returned cs (snd (getBuffer blk s)) p)"
| "returned (c # cs) s p = returned cs (step c s) p"

text \<open>
  The pool as the constructor leaves it and every call keeps it: the allocated entries
  have pairwise different pointers, each to a block of the buffer size, and the block of
  a free entry is all zero.
\<close>

definition pool_ok :: "handler \<Rightarrow> bool" where
  "pool_ok s =
     (distinct (filter (\<lambda>a. a \<noteq> nullptr) (map data (bufferPool s)))
      \<and> (\<forall>b \<in> set (bufferPool s). data b \<noteq> nullptr \<longrightarrow>
           (\<exists>bs. heap s (data b) = Some bs \<and> length bs = bufferSize s))
      \<and> (\<forall>b \<in> set (bufferPool s). data b \<noteq> nullptr \<and> \<not> inUse b \<longrightarrow>
           heap s (data b) = Some (replicate (bufferSize s) 0)))"

text \<open>No entry of the pool with pointer \<open>p\<close> is marked in use.\<close>

definition free_in :: "handler \<Rightarrow> addr \<Rightarrow> bool" where
  "free_in s p = list_all (\<lambda>b. data b = p \<longrightarrow> \<not> inUse b) (bufferPool s)"

text \<open>
  The buffer at \<open>p\<close> has an owner: it is an allocated block, and no pool entry with that
  pointer is free.
\<close>

definition owned :: "handler \<Rightarrow> addr \<Rightarrow> bool" where
  "owned s p =
     (p \<noteq> nullptr \<and> heap s p \<noteq> None
      \<and> list_all (\<lambda>b. data b = p \<longrightarrow> inUse b) (bufferPool s))"

text \<open>The freshly constructed pool with every buffer handed out.\<close>

definition exhausted :: handler where
  "exhausted =
     run [Get (0, []), Get (0, []), Get (0, []), Get (0, []), Get (0, []), Get (0, [])] fresh"

section \<open>Properties\<close>

subsection \<open>Facts about the example states\<close>

lemma pool_indices: "[0..<SPI_BUFFER_POOL_SIZE] = [0, 1, 2, 3, 4, 5]"
  unfolding SPI_BUFFER_POOL_SIZE_def by (simp add: upt_rec)

lemma fresh_fields:
  "bufferSize fresh = SPI_BUFFER_SIZE" "\<not> initialized fresh" "receiveQueue fresh = []"
  "queueSemaphore fresh = Available" "receiveCallback fresh = None"
  "txBuffer fresh = replicate SPI_BUFFER_SIZE 0" "rxBuffer fresh = replicate SPI_BUFFER_SIZE 0"
  "transactionCount fresh = 0" "\<not> transactionActive fresh" "lastTransactionTime fresh = 0"
  "transactionTimeout fresh = 3000" "\<not> installed (hspi fresh)" "sckPin fresh = 0"
  "txLength fresh = 0" "\<not> dataReady fresh" "\<not> needsNewTransaction fresh"
  "recoveryAttempts fresh = 0"
  by (simp_all add: fresh_def SPISlaveHandler_def case_prod_beta)

lemma init_queue_loop_ok:
  "init_queue_loop is (\<lambda>i. ESP_OK) s
     = (True, s\<lparr>hspi := (hspi s)\<lparr>queued := length is + queued (hspi s)\<rparr>\<rparr>)"
  by (induction "is" arbitrary: s) (simp_all add: spi_slave_queue_trans_def)

lemma ready_eq:
  "ready = fresh\<lparr>mode := SPI_MODE0, sckPin := 12, misoPin := 13, mosiPin := 15, csPin := 14,
                  hspi := \<lparr>installed = True, queued = 3\<rparr>,
                  transaction_length := SPI_BUFFER_SIZE * 8, initialized := True\<rparr>"
  by (simp add: ready_def init_def fresh_fields spi_slave_initialize_def init_queue_loop_ok
      SPI_SCK_PIN_def SPI_MISO_PIN_def SPI_MOSI_PIN_def SPI_ESP32_SS_def
      fresh_def SPISlaveHandler_def case_prod_beta)

lemma ready_fields:
  "bufferSize ready = SPI_BUFFER_SIZE" "initialized ready" "receiveQueue ready = []"
  "queueSemaphore ready = Available" "receiveCallback ready = None"
  "txBuffer ready = replicate SPI_BUFFER_SIZE 0" "rxBuffer ready = replicate SPI_BUFFER_SIZE 0"
  "transactionCount ready = 0" "\<not> transactionActive ready" "lastTransactionTime ready = 0"
  "transactionTimeout ready = 3000" "installed (hspi ready)"
  "txLength ready = 0" "\<not> dataReady ready" "\<not> needsNewTransaction ready"
  "recoveryAttempts ready = 0"
  by (simp_all add: ready_eq fresh_fields)

text \<open>The example pool, entry by entry, and what a completed transfer does to it.\<close>

lemma memset_whole: "length b = n \<Longrightarrow> memset b v n = replicate n v"
  by (simp add: memset_def)

lemma length_memcpy:
  "n \<le> length src \<Longrightarrow> n \<le> length dst \<Longrightarrow> length (memcpy dst src n) = length dst"
  by (simp add: memcpy_def)

lemma heap_write_apply:
  "heap_write p f h q = (if q = p then map_option f (h p) else h q)"
  by (simp add: heap_write_def split: option.splits)

lemma alloc_pool_Cons_ok:
  assumes "a \<noteq> nullptr" and "h a = None" and "length junk = n"
  shows "alloc_pool n ((a, junk) # blks) h
           = (\<lparr>data = a, inUse = False\<rparr> # fst (alloc_pool n blks (h(a \<mapsto> replicate n 0))),
              snd (alloc_pool n blks (h(a \<mapsto> replicate n 0))))"
  using assms
  by (simp add: heap_caps_malloc_def heap_write_def memset_whole case_prod_beta Let_def)

lemma fresh_pool_heap:
  "bufferPool fresh
     = [\<lparr>data = 16, inUse = False\<rparr>, \<lparr>data = 17, inUse = False\<rparr>, \<lparr>data = 18, inUse = False\<rparr>,
        \<lparr>data = 19, inUse = False\<rparr>, \<lparr>data = 20, inUse = False\<rparr>, \<lparr>data = 21, inUse = False\<rparr>]"
  "heap fresh
     = [16 \<mapsto> replicate SPI_BUFFER_SIZE 0, 17 \<mapsto> replicate SPI_BUFFER_SIZE 0,
        18 \<mapsto> replicate SPI_BUFFER_SIZE 0, 19 \<mapsto> replicate SPI_BUFFER_SIZE 0,
        20 \<mapsto> replicate SPI_BUFFER_SIZE 0, 21 \<mapsto> replicate SPI_BUFFER_SIZE 0]"
  by (simp_all add: fresh_def SPISlaveHandler_def pool_indices case_prod_beta alloc_pool_Cons_ok
      del: alloc_pool.simps(2))

lemma fresh_block: "heap fresh 16 = Some (replicate SPI_BUFFER_SIZE 0)"
  by (simp add: fresh_pool_heap)

text \<open>
  A completed four-byte transfer on the example pool when the count read by the callback
  is below the bound (the queue is short, or the first take timed out) and the second
  take succeeds: the packet is pushed.
\<close>

lemma completion_pushes:
  assumes f: "bufferPool s = bufferPool fresh" "heap s = heap fresh"
    "bufferSize s = SPI_BUFFER_SIZE" "rxBuffer s = replicate SPI_BUFFER_SIZE 0"
    and low: "queueSemaphore s = Held \<or> length (receiveQueue s) < 10"
  shows "onSpiTransaction now 32 blk Available s
      = s\<lparr>lastTransactionTime := now, transactionActive := False,
           transactionCount := transactionCount s + 1,
           bufferPool := bufferPool fresh, heap := heap fresh,
           queueSemaphore := Available,
           receiveQueue := receiveQueue s @ [new_SPIDataPacket
              (deref (heap_write 16 (\<lambda>bs. memcpy bs (replicate SPI_BUFFER_SIZE 0) 4)
                        (heap fresh)) 16) 4],
           rxBuffer := replicate SPI_BUFFER_SIZE 0, dataReady := False,
           needsNewTransaction := True\<rparr>"
proof -
  let ?s1 = "s\<lparr>lastTransactionTime := now, transactionActive := False,
               transactionCount := transactionCount s + 1\<rparr>"
  have g: "getBuffer blk ?s1
      = (16, ?s1\<lparr>bufferPool := (bufferPool fresh)[0 := \<lparr>data = 16, inUse = True\<rparr>]\<rparr>)"
    using f by (simp add: getBuffer_def fresh_pool_heap)
  have r: "returnBuffer_scan ((bufferPool fresh)[0 := \<lparr>data = 16, inUse = True\<rparr>]) 16
             = Some (bufferPool fresh)"
    by (simp add: fresh_pool_heap)
  have h: "heap_write 16 (\<lambda>bs. memset bs 0 SPI_BUFFER_SIZE)
             (heap_write 16 (\<lambda>bs. memcpy bs (replicate SPI_BUFFER_SIZE 0) 4) (heap fresh))
           = heap fresh"
    by (rule ext) (simp add: heap_write_apply fresh_block memset_def memcpy_def
        SPI_BUFFER_SIZE_def)
  have c: "pendingReceiveCount ?s1 < maxQueueSize"
    using low by (auto simp: pendingReceiveCount_def xSemaphoreTake_def maxQueueSize_def)
  show ?thesis
    using f c
    by (simp add: onSpiTransaction_def Let_def g xSemaphoreTake_def
        returnBuffer_def r h memset_whole)
qed

lemma completion_settled:
  assumes "settled k s" and "k < 10"
  shows "settled (Suc k) (onSpiTransaction 1000 32 blk Available s)"
proof -
  from assms have "onSpiTransaction 1000 32 blk Available s
      = s\<lparr>lastTransactionTime := 1000, transactionActive := False,
           transactionCount := transactionCount s + 1,
           bufferPool := bufferPool fresh, heap := heap fresh,
           queueSemaphore := Available,
           receiveQueue := receiveQueue s @ [new_SPIDataPacket
              (deref (heap_write 16 (\<lambda>bs. memcpy bs (replicate SPI_BUFFER_SIZE 0) 4)
                        (heap fresh)) 16) 4],
           rxBuffer := replicate SPI_BUFFER_SIZE 0, dataReady := False,
           needsNewTransaction := True\<rparr>"
    by (intro completion_pushes) (simp_all add: settled_def)
  with assms(1) show ?thesis by (simp add: settled_def)
qed

lemma ready_settled: "settled 0 ready"
  by (simp add: settled_def ready_fields ready_eq fresh_fields)

lemma completions_settled: "k \<le> 10 \<Longrightarrow> settled k (completions k ready)"
  by (induction k) (simp_all add: ready_settled completion_settled)

lemma full_fields:
  "bufferSize full = SPI_BUFFER_SIZE" "queueSemaphore full = Available"
  "length (receiveQueue full) = 10" "initialized full" "receiveCallback full = None"
  "txBuffer full = replicate SPI_BUFFER_SIZE 0" "rxBuffer full = replicate SPI_BUFFER_SIZE 0"
  "transactionCount full = 10" "recoveryAttempts full = 0"
  "bufferPool full = bufferPool fresh" "heap full = heap fresh"
  using completions_settled [of 10] by (simp_all add: full_def settled_def)

lemma backlog_fields:
  "bufferSize backlog = SPI_BUFFER_SIZE" "queueSemaphore backlog = Available"
  "length (receiveQueue backlog) = 3" "initialized backlog" "receiveCallback backlog = None"
  "txBuffer backlog = replicate SPI_BUFFER_SIZE 0"
  using completions_settled [of 3] by (simp_all add: backlog_def settled_def)

lemma served_fields:
  "bufferSize served = SPI_BUFFER_SIZE" "queueSemaphore served = Available"
  "length (receiveQueue served) = 1" "initialized served" "receiveCallback served = None"
  "transactionCount served = 1" "\<not> transactionActive served"
  "transactionTimeout served = 3000" "lastTransactionTime served = 1000"
  "txBuffer served = replicate SPI_BUFFER_SIZE 0" "rxBuffer served = replicate SPI_BUFFER_SIZE 0"
  "recoveryAttempts served = 0"
  using completions_settled [of 1] by (simp_all add: served_def settled_def)

subsection \<open>Flow-control percentage\<close>

text \<open>
  C9. For every pending receive count \<open>n\<close> from 0 to the maximum queue size (10),
  \<^verbatim>\<open>getBufferStatus\<close> returns exactly \<open>n * 100\<close> divided by the maximum queue size,
  rounded down, where \<open>n\<close> is what \<^verbatim>\<open>pendingReceiveCount\<close> returns at the time of the call.
\<close>

theorem getBufferStatus_percentage:
  assumes "pendingReceiveCount s = n" and "n \<le> maxQueueSize"
  shows "unat (getBufferStatus s) = (n * 100) div maxQueueSize"
proof -
  from assms(2) have "n \<in> {0, 1, 2, 3, 4, 5, 6, 7, 8, 9, 10}"
    unfolding maxQueueSize_def by (simp; arith)
  then show ?thesis
    using assms(1) by (auto simp: getBufferStatus_def maxQueueSize_def)
qed

theorem getBufferStatus_percentage_witness:
  "pendingReceiveCount backlog = 3 \<and> unat (getBufferStatus backlog) = 30"
  using getBufferStatus_percentage [of backlog 3]
  by (simp add: pendingReceiveCount_def xSemaphoreTake_def backlog_fields maxQueueSize_def)

text \<open>
  C10. In every state in which the queue mutex cannot be taken within the bounded wait,
  \<^verbatim>\<open>pendingReceiveCount\<close> returns 0 rather than an error, and so \<^verbatim>\<open>getBufferStatus\<close>
  returns 0, whatever the number of queued packets.
\<close>

theorem lock_timeout_reports_empty:
  "queueSemaphore s = Held \<Longrightarrow> pendingReceiveCount s = 0 \<and> getBufferStatus s = 0"
  by (simp add: pendingReceiveCount_def getBufferStatus_def xSemaphoreTake_def)

theorem lock_timeout_reports_empty_witness:
  "length (receiveQueue contended) = 3 \<and> pendingReceiveCount contended = 0
   \<and> getBufferStatus contended = 0"
  using lock_timeout_reports_empty [of contended]
  by (simp add: contended_def backlog_fields)

subsection \<open>Staging outbound data\<close>

lemma staged_fields:
  "initialized staged" "bufferSize staged = SPI_BUFFER_SIZE" "txLength staged = 3"
  "dataReady staged" "take 3 (txBuffer staged) = [0x31, 0x00, 0x07]"
  by (simp_all add: staged_def prepareDataToSend_def ready_fields SPI_BUFFER_SIZE_def
      memcpy_def memset_def)

text \<open>
  C4. For every state and every call \<^verbatim>\<open>prepareDataToSend(txData, length)\<close>: if \<open>txData\<close> is
  null, or the length is 0, or the length exceeds the configured buffer size, or the
  handler is not initialised, the call returns false and leaves the handler (and with it
  the transmit buffer, \<open>txLength\<close> and \<open>dataReady\<close>) exactly as it was.
\<close>

theorem prepareDataToSend_rejects:
  assumes "txData = None \<or> len = 0 \<or> len > bufferSize s \<or> \<not> initialized s"
  shows "prepareDataToSend txData len s = (False, s)"
  using assms by (auto simp: prepareDataToSend_def)

theorem prepareDataToSend_rejects_witness:
  "prepareDataToSend (Some (replicate 8097 0xEE)) 8097 staged = (False, staged)
   \<and> txLength staged = 3 \<and> dataReady staged \<and> take 3 (txBuffer staged) = [0x31, 0x00, 0x07]"
  using prepareDataToSend_rejects [of "Some (replicate 8097 0xEE)" 8097 staged]
  by (simp add: staged_fields SPI_BUFFER_SIZE_def)

subsection \<open>The completion callback\<close>

lemma getBuffer_frame:
  "receiveQueue (snd (getBuffer blk s)) = receiveQueue s"
  "queueSemaphore (snd (getBuffer blk s)) = queueSemaphore s"
  "transactionCount (snd (getBuffer blk s)) = transactionCount s"
  "bufferSize (snd (getBuffer blk s)) = bufferSize s"
  "rxBuffer (snd (getBuffer blk s)) = rxBuffer s"
  "txBuffer (snd (getBuffer blk s)) = txBuffer s"
  "lastTransactionTime (snd (getBuffer blk s)) = lastTransactionTime s"
  by (simp_all add: getBuffer_def case_prod_beta split: option.splits)

lemma returnBuffer_frame:
  "receiveQueue (returnBuffer p s) = receiveQueue s"
  "queueSemaphore (returnBuffer p s) = queueSemaphore s"
  "transactionCount (returnBuffer p s) = transactionCount s"
  "bufferSize (returnBuffer p s) = bufferSize s"
  "rxBuffer (returnBuffer p s) = rxBuffer s"
  "txBuffer (returnBuffer p s) = txBuffer s"
  "lastTransactionTime (returnBuffer p s) = lastTransactionTime s"
  by (simp_all add: returnBuffer_def split: option.splits)

lemma onSpiTransaction_count:
  "transactionCount (onSpiTransaction now trans_len blk sem s) = transactionCount s + 1"
  by (simp add: onSpiTransaction_def Let_def case_prod_beta getBuffer_frame returnBuffer_frame)

lemma onSpiTransaction_time:
  "lastTransactionTime (onSpiTransaction now trans_len blk sem s) = now"
  by (simp add: onSpiTransaction_def Let_def case_prod_beta getBuffer_frame returnBuffer_frame)

text \<open>
  The callback pushes at most one packet, and only when the count it read is below the
  bound (the first take succeeded on a short queue, or timed out) and the second take
  succeeds.
\<close>

lemma onSpiTransaction_queue:
  "receiveQueue (onSpiTransaction now trans_len blk sem s) = receiveQueue s
   \<or> ((queueSemaphore s = Held \<or> length (receiveQueue s) < maxQueueSize) \<and> sem = Available
      \<and> (\<exists>packet. receiveQueue (onSpiTransaction now trans_len blk sem s)
                     = receiveQueue s @ [packet]))"
  by (cases "queueSemaphore s")
    (simp_all add: onSpiTransaction_def Let_def case_prod_beta getBuffer_frame
      returnBuffer_frame pendingReceiveCount_def xSemaphoreTake_def)

lemma onSpiTransaction_rx:
  "trans_len div 8 \<noteq> 0 \<Longrightarrow>
   rxBuffer (onSpiTransaction now trans_len blk sem s) = memset (rxBuffer s) 0 (bufferSize s)"
  by (simp add: onSpiTransaction_def Let_def case_prod_beta getBuffer_frame returnBuffer_frame)

lemma SPISlaveHandler_queue_empty: "receiveQueue (SPISlaveHandler blk) = []"
  by (simp add: SPISlaveHandler_def case_prod_beta)

subsection \<open>Initialisation leaves the transport state alone\<close>

lemma init_queue_loop_frame:
  "txBuffer (snd (init_queue_loop is rq s)) = txBuffer s
 \<and> rxBuffer (snd (init_queue_loop is rq s)) = rxBuffer s
 \<and> bufferSize (snd (init_queue_loop is rq s)) = bufferSize s
 \<and> txLength (snd (init_queue_loop is rq s)) = txLength s
 \<and> dataReady (snd (init_queue_loop is rq s)) = dataReady s
 \<and> needsNewTransaction (snd (init_queue_loop is rq s)) = needsNewTransaction s
 \<and> lastTransactionTime (snd (init_queue_loop is rq s)) = lastTransactionTime s
 \<and> transactionTimeout (snd (init_queue_loop is rq s)) = transactionTimeout s
 \<and> transactionActive (snd (init_queue_loop is rq s)) = transactionActive s
 \<and> transactionCount (snd (init_queue_loop is rq s)) = transactionCount s
 \<and> recoveryAttempts (snd (init_queue_loop is rq s)) = recoveryAttempts s
 \<and> receiveQueue (snd (init_queue_loop is rq s)) = receiveQueue s
 \<and> queueSemaphore (snd (init_queue_loop is rq s)) = queueSemaphore s
 \<and> bufferPool (snd (init_queue_loop is rq s)) = bufferPool s
 \<and> heap (snd (init_queue_loop is rq s)) = heap s
 \<and> receiveCallback (snd (init_queue_loop is rq s)) = receiveCallback s
 \<and> initialized (snd (init_queue_loop is rq s)) = initialized s
 \<and> installed (hspi (snd (init_queue_loop is rq s))) = installed (hspi s)"
  by (induction "is" arbitrary: s) (simp_all add: spi_slave_queue_trans_def)

lemma init_frame:
  "txBuffer (snd (init sck miso mosi cs md ri rq s)) = txBuffer s"
  "rxBuffer (snd (init sck miso mosi cs md ri rq s)) = rxBuffer s"
  "bufferSize (snd (init sck miso mosi cs md ri rq s)) = bufferSize s"
  "txLength (snd (init sck miso mosi cs md ri rq s)) = txLength s"
  "dataReady (snd (init sck miso mosi cs md ri rq s)) = dataReady s"
  "needsNewTransaction (snd (init sck miso mosi cs md ri rq s)) = needsNewTransaction s"
  "lastTransactionTime (snd (init sck miso mosi cs md ri rq s)) = lastTransactionTime s"
  "transactionTimeout (snd (init sck miso mosi cs md ri rq s)) = transactionTimeout s"
  "transactionActive (snd (init sck miso mosi cs md ri rq s)) = transactionActive s"
  "transactionCount (snd (init sck miso mosi cs md ri rq s)) = transactionCount s"
  "recoveryAttempts (snd (init sck miso mosi cs md ri rq s)) = recoveryAttempts s"
  "receiveQueue (snd (init sck miso mosi cs md ri rq s)) = receiveQueue s"
  "queueSemaphore (snd (init sck miso mosi cs md ri rq s)) = queueSemaphore s"
  "bufferPool (snd (init sck miso mosi cs md ri rq s)) = bufferPool s"
  "heap (snd (init sck miso mosi cs md ri rq s)) = heap s"
  "receiveCallback (snd (init sck miso mosi cs md ri rq s)) = receiveCallback s"
  by (simp_all add: init_def Let_def case_prod_beta spi_slave_initialize_def
      init_queue_loop_frame)

lemma init_success:
  "fst (init sck miso mosi cs md ri rq s) \<Longrightarrow>
   initialized (snd (init sck miso mosi cs md ri rq s))"
  by (simp add: init_def Let_def case_prod_beta split: if_splits)

subsection \<open>Recovery\<close>

lemma drain_empty: "drain q = []"
  by (induction q) simp_all

lemma memcpy_into_zeros:
  "length src = n \<Longrightarrow> n \<le> m \<Longrightarrow>
   memcpy (replicate m (0::byte)) src n = src @ replicate (m - n) 0"
  by (simp add: memcpy_def)

text \<open>
  What a successful \<^verbatim>\<open>resetSPIInterface\<close> leaves behind, in a handler with buffers as
  the constructor allocates them. The state \<open>s6\<close> is the one reached just before the
  beacon is staged.
\<close>

lemma resetSPIInterface_result:
  assumes ok: "fst (resetSPIInterface ri rq now s)"
    and size: "bufferSize s = SPI_BUFFER_SIZE"
    and tx: "length (txBuffer s) = bufferSize s" and rx: "length (rxBuffer s) = bufferSize s"
  shows "\<exists>s6. snd (resetSPIInterface ri rq now s)
                 = snd (prepareDataToSend (Some [0xAA, 0x55, 0xAA, 0x55]) 4 s6)
            \<and> fst (prepareDataToSend (Some [0xAA, 0x55, 0xAA, 0x55]) 4 s6)
            \<and> txBuffer s6 = replicate (bufferSize s) 0
            \<and> rxBuffer s6 = replicate (bufferSize s) 0
            \<and> txLength s6 = 0 \<and> \<not> dataReady s6 \<and> \<not> transactionActive s6
            \<and> recoveryAttempts s6 = recoveryAttempts s + 1
            \<and> receiveQueue s6 = (if queueSemaphore s = Available then [] else receiveQueue s)"
    and "recoveryAttempts (snd (resetSPIInterface ri rq now s)) = recoveryAttempts s + 1
       \<and> \<not> transactionActive (snd (resetSPIInterface ri rq now s))
       \<and> rxBuffer (snd (resetSPIInterface ri rq now s)) = replicate (bufferSize s) 0
       \<and> txBuffer (snd (resetSPIInterface ri rq now s))
           = [0xAA, 0x55, 0xAA, 0x55] @ replicate (bufferSize s - 4) 0
       \<and> txLength (snd (resetSPIInterface ri rq now s)) = 4
       \<and> dataReady (snd (resetSPIInterface ri rq now s))
       \<and> receiveQueue (snd (resetSPIInterface ri rq now s))
           = (if queueSemaphore s = Available then [] else receiveQueue s)"
proof -
  define s2 where "s2 =
    (if initialized s
     then (spi_slave_free (s\<lparr>recoveryAttempts := recoveryAttempts s + 1\<rparr>))
            \<lparr>initialized := False\<rparr>
     else s\<lparr>recoveryAttempts := recoveryAttempts s + 1\<rparr>)"
  define r where "r =
    init (uint (sckPin s2)) (uint (misoPin s2)) (uint (mosiPin s2)) (uint (csPin s2))
      (mode s2) ri rq s2"
  define s5 where "s5 = (snd r)\<lparr>transactionActive := False, lastTransactionTime := now,
     txBuffer := memset (txBuffer (snd r)) 0 (bufferSize (snd r)),
     rxBuffer := memset (rxBuffer (snd r)) 0 (bufferSize (snd r)),
     txLength := 0, dataReady := False\<rparr>"
  define s6 where "s6 =
    (if xSemaphoreTake s5 then s5\<lparr>receiveQueue := drain (receiveQueue s5)\<rparr> else s5)"
  have unfold: "resetSPIInterface ri rq now s =
    (if fst r then (fst r, snd (prepareDataToSend (Some [0xAA, 0x55, 0xAA, 0x55]) 4 s6))
     else (fst r, snd r))"
    by (simp add: resetSPIInterface_def Let_def case_prod_beta r_def s2_def s5_def s6_def)
  from ok have r_ok: "fst r" by (simp add: unfold split: if_splits)
  have s2_fields: "txBuffer s2 = txBuffer s" "rxBuffer s2 = rxBuffer s"
    "bufferSize s2 = bufferSize s" "receiveQueue s2 = receiveQueue s"
    "queueSemaphore s2 = queueSemaphore s" "recoveryAttempts s2 = recoveryAttempts s + 1"
    by (simp_all add: s2_def spi_slave_free_def)
  have r_fields: "txBuffer (snd r) = txBuffer s" "rxBuffer (snd r) = rxBuffer s"
    "bufferSize (snd r) = bufferSize s" "receiveQueue (snd r) = receiveQueue s"
    "queueSemaphore (snd r) = queueSemaphore s"
    "recoveryAttempts (snd r) = recoveryAttempts s + 1" "initialized (snd r)"
    using r_ok by (simp_all add: r_def init_frame init_success s2_fields)
  have s6_fields: "txBuffer s6 = replicate (bufferSize s) 0"
    "rxBuffer s6 = replicate (bufferSize s) 0" "bufferSize s6 = bufferSize s"
    "receiveQueue s6 = (if queueSemaphore s = Available then [] else receiveQueue s)"
    "recoveryAttempts s6 = recoveryAttempts s + 1" "initialized s6" "\<not> transactionActive s6"
    "txLength s6 = 0" "\<not> dataReady s6"
    by (simp_all add: s6_def s5_def r_fields xSemaphoreTake_def drain_empty memset_whole tx rx)
  have four: "4 \<le> bufferSize s" by (simp add: size SPI_BUFFER_SIZE_def)
  have staged_ok: "fst (prepareDataToSend (Some [0xAA, 0x55, 0xAA, 0x55]) 4 s6)"
    using four by (simp add: prepareDataToSend_def s6_fields)
  have "snd (resetSPIInterface ri rq now s)
          = snd (prepareDataToSend (Some [0xAA, 0x55, 0xAA, 0x55]) 4 s6)"
    using r_ok by (simp add: unfold)
  with staged_ok s6_fields
  show "\<exists>s6. snd (resetSPIInterface ri rq now s)
                 = snd (prepareDataToSend (Some [0xAA, 0x55, 0xAA, 0x55]) 4 s6)
            \<and> fst (prepareDataToSend (Some [0xAA, 0x55, 0xAA, 0x55]) 4 s6)
            \<and> txBuffer s6 = replicate (bufferSize s) 0
            \<and> rxBuffer s6 = replicate (bufferSize s) 0
            \<and> txLength s6 = 0 \<and> \<not> dataReady s6 \<and> \<not> transactionActive s6
            \<and> recoveryAttempts s6 = recoveryAttempts s + 1
            \<and> receiveQueue s6 = (if queueSemaphore s = Available then [] else receiveQueue s)"
    by blast
  show "recoveryAttempts (snd (resetSPIInterface ri rq now s)) = recoveryAttempts s + 1
       \<and> \<not> transactionActive (snd (resetSPIInterface ri rq now s))
       \<and> rxBuffer (snd (resetSPIInterface ri rq now s)) = replicate (bufferSize s) 0
       \<and> txBuffer (snd (resetSPIInterface ri rq now s))
           = [0xAA, 0x55, 0xAA, 0x55] @ replicate (bufferSize s - 4) 0
       \<and> txLength (snd (resetSPIInterface ri rq now s)) = 4
       \<and> dataReady (snd (resetSPIInterface ri rq now s))
       \<and> receiveQueue (snd (resetSPIInterface ri rq now s))
           = (if queueSemaphore s = Available then [] else receiveQueue s)"
    using r_ok four
    by (simp add: unfold prepareDataToSend_def s6_fields memset_whole memcpy_into_zeros)
qed

lemma init_all_ok:
  "\<not> initialized s \<Longrightarrow> fst (init sck miso mosi cs md ESP_OK (\<lambda>i. ESP_OK) s)"
  by (simp add: init_def spi_slave_initialize_def init_queue_loop_ok)

lemma reset_all_ok: "fst (resetSPIInterface ESP_OK (\<lambda>i. ESP_OK) now s)"
  by (simp add: resetSPIInterface_def Let_def case_prod_beta init_all_ok spi_slave_free_def)

subsection \<open>The other operations never lengthen the queue\<close>

text \<open>
  Only the completion callback pushes. Staging, re-queuing, draining, recovery and the
  watchdog leave the queue as long as it was or shorter; \<^verbatim>\<open>init\<close> does not touch it
  (\<open>init_frame\<close>).
\<close>

lemma prepareDataToSend_queue:
  "receiveQueue (snd (prepareDataToSend txData len s)) = receiveQueue s"
  by (simp add: prepareDataToSend_def)

lemma ensureTransactionQueued_queue:
  "receiveQueue (snd (ensureTransactionQueued r s)) = receiveQueue s"
  by (simp add: ensureTransactionQueued_def spi_slave_queue_trans_def Let_def)

lemma handleReceivedData_queue:
  "quiet run_cb \<Longrightarrow>
   length (receiveQueue (handleReceivedData run_cb d n s)) \<le> length (receiveQueue s)"
  by (simp add: handleReceivedData_def prepareDataToSend_queue quiet_def split: option.splits)

lemma processNextReceive_queue:
  assumes "quiet run_cb"
  shows "length (receiveQueue (snd (processNextReceive run_cb s))) \<le> length (receiveQueue s)"
proof (cases "receiveQueue s")
  case Nil
  then show ?thesis by (simp add: processNextReceive_def)
next
  case (Cons packet rest)
  have "length (receiveQueue (handleReceivedData run_cb (pdata packet) (plength packet)
                  (s\<lparr>receiveQueue := rest\<rparr>))) \<le> length rest"
    using handleReceivedData_queue [OF assms, of "pdata packet" "plength packet"
        "s\<lparr>receiveQueue := rest\<rparr>"] by simp
  with Cons show ?thesis by (simp add: processNextReceive_def)
qed

lemma resetSPIInterface_queue:
  "length (receiveQueue (snd (resetSPIInterface ri rq now s))) \<le> length (receiveQueue s)"
  by (simp add: resetSPIInterface_def Let_def case_prod_beta prepareDataToSend_queue init_frame
      drain_empty spi_slave_free_def)

lemma checkAndRecoverFromStalledTransaction_queue:
  "length (receiveQueue (snd (checkAndRecoverFromStalledTransaction now ri rq now' r s)))
     \<le> length (receiveQueue s)"
  by (simp add: checkAndRecoverFromStalledTransaction_def Let_def resetSPIInterface_queue
      ensureTransactionQueued_queue)

subsection \<open>Every operation keeps the persistent buffers in shape\<close>

lemma SPISlaveHandler_buffers_ok: "buffers_ok (SPISlaveHandler blk)"
  by (simp add: buffers_ok_def SPISlaveHandler_def case_prod_beta)

lemma prepareDataToSend_buffers_ok:
  assumes "buffers_ok s" and "\<forall>d. txData = Some d \<longrightarrow> len \<le> length d"
  shows "buffers_ok (snd (prepareDataToSend txData len s))"
  using assms
  by (auto simp: prepareDataToSend_def buffers_ok_def memset_whole length_memcpy)

lemma handleReceivedData_buffers_ok:
  assumes "quiet run_cb" and "buffers_ok s"
  shows "buffers_ok (handleReceivedData run_cb d n s)"
proof (cases "receiveCallback s")
  case None
  have "buffers_ok (snd (prepareDataToSend (Some [PONG, 0x00, getBufferStatus s, 0x00]) 4 s))"
    using assms(2) by (rule prepareDataToSend_buffers_ok) simp
  with None assms(2) show ?thesis by (simp add: handleReceivedData_def)
next
  case (Some f)
  with assms show ?thesis by (simp add: handleReceivedData_def quiet_def buffers_ok_def)
qed

lemma processNextReceive_buffers_ok:
  assumes "quiet run_cb" and "buffers_ok s"
  shows "buffers_ok (snd (processNextReceive run_cb s))"
proof (cases "receiveQueue s")
  case Nil
  with assms(2) show ?thesis by (simp add: processNextReceive_def)
next
  case (Cons packet rest)
  from assms(2) have "buffers_ok (s\<lparr>receiveQueue := rest\<rparr>)" by (simp add: buffers_ok_def)
  from handleReceivedData_buffers_ok [OF assms(1) this] Cons assms(2)
  show ?thesis by (simp add: processNextReceive_def)
qed

lemma ensureTransactionQueued_buffers_ok:
  "buffers_ok s \<Longrightarrow> buffers_ok (snd (ensureTransactionQueued r s))"
  by (simp add: ensureTransactionQueued_def spi_slave_queue_trans_def Let_def buffers_ok_def)

lemma init_buffers_ok:
  "buffers_ok s \<Longrightarrow> buffers_ok (snd (init sck miso mosi cs md ri rq s))"
  by (simp add: buffers_ok_def init_frame)

lemma resetSPIInterface_buffers_ok:
  assumes "buffers_ok s"
  shows "buffers_ok (snd (resetSPIInterface ri rq now s))"
proof -
  define s2 where "s2 =
    (if initialized s
     then (spi_slave_free (s\<lparr>recoveryAttempts := recoveryAttempts s + 1\<rparr>))
            \<lparr>initialized := False\<rparr>
     else s\<lparr>recoveryAttempts := recoveryAttempts s + 1\<rparr>)"
  define r where "r =
    init (uint (sckPin s2)) (uint (misoPin s2)) (uint (mosiPin s2)) (uint (csPin s2))
      (mode s2) ri rq s2"
  define s5 where "s5 = (snd r)\<lparr>transactionActive := False, lastTransactionTime := now,
     txBuffer := memset (txBuffer (snd r)) 0 (bufferSize (snd r)),
     rxBuffer := memset (rxBuffer (snd r)) 0 (bufferSize (snd r)),
     txLength := 0, dataReady := False\<rparr>"
  define s6 where "s6 =
    (if xSemaphoreTake s5 then s5\<lparr>receiveQueue := drain (receiveQueue s5)\<rparr> else s5)"
  have unfold: "snd (resetSPIInterface ri rq now s) =
    (if fst r then snd (prepareDataToSend (Some [0xAA, 0x55, 0xAA, 0x55]) 4 s6) else snd r)"
    by (simp add: resetSPIInterface_def Let_def case_prod_beta r_def s2_def s5_def s6_def)
  from assms have "buffers_ok s2" by (simp add: s2_def buffers_ok_def spi_slave_free_def)
  then have r: "buffers_ok (snd r)" unfolding r_def by (rule init_buffers_ok)
  then have "buffers_ok s6"
    by (simp add: s6_def s5_def buffers_ok_def memset_whole)
  then have "buffers_ok (snd (prepareDataToSend (Some [0xAA, 0x55, 0xAA, 0x55]) 4 s6))"
    by (rule prepareDataToSend_buffers_ok) simp
  with r show ?thesis by (simp add: unfold)
qed

lemma checkAndRecoverFromStalledTransaction_buffers_ok:
  "buffers_ok s \<Longrightarrow>
   buffers_ok (snd (checkAndRecoverFromStalledTransaction now ri rq now' r s))"
  by (simp add: checkAndRecoverFromStalledTransaction_def Let_def resetSPIInterface_buffers_ok
      ensureTransactionQueued_buffers_ok)

lemma onSpiTransaction_buffers_ok:
  "buffers_ok s \<Longrightarrow> buffers_ok (onSpiTransaction now trans_len blk sem s)"
  by (simp add: onSpiTransaction_def Let_def case_prod_beta getBuffer_frame returnBuffer_frame
      buffers_ok_def memset_whole)

subsection \<open>Invariants of the reachable states\<close>

lemma reachable_buffers:
  assumes "quiet run_cb"
  shows "reachable run_cb s \<Longrightarrow> buffers_ok s"
proof (induction rule: reachable.induct)
  case (constructed blk)
  show ?case by (rule SPISlaveHandler_buffers_ok)
next
  case (initialised s sck miso mosi cs md ret_init ret_queue)
  then show ?case by (simp add: init_buffers_ok)
next
  case (staged s txData len)
  then show ?case by (simp add: prepareDataToSend_buffers_ok)
next
  case (processed s)
  then show ?case by (simp add: processNextReceive_buffers_ok [OF assms])
next
  case (callback_set s callback)
  then show ?case by (simp add: setReceiveCallback_def buffers_ok_def)
next
  case (requeued s ret_q)
  then show ?case by (simp add: ensureTransactionQueued_buffers_ok)
next
  case (polled s now ret_init ret_queue now' ret_q)
  then show ?case by (simp add: checkAndRecoverFromStalledTransaction_buffers_ok)
next
  case (reset s ret_init ret_queue now)
  then show ?case by (simp add: resetSPIInterface_buffers_ok)
next
  case (completed s now trans_len blk sem)
  then show ?case by (simp add: onSpiTransaction_buffers_ok)
next
  case (started s)
  then show ?case by (simp add: onSpiPreTransaction_def buffers_ok_def)
next
  case (received s n bytes)
  then show ?case by (simp add: buffers_ok_def length_memcpy)
next
  case (contention s sem)
  then show ?case by (simp add: buffers_ok_def)
qed

text \<open>The example states are reachable, and the callback that does nothing is quiet.\<close>

lemma reachable_completions: "reachable run_cb s \<Longrightarrow> reachable run_cb (completions k s)"
  by (induction k) (simp_all add: reachable.completed)

lemma reachable_ready: "reachable run_cb ready"
  unfolding ready_def fresh_def by (intro reachable.initialised reachable.constructed)

lemma reachable_examples:
  "reachable run_cb full" "reachable run_cb backlog" "reachable run_cb served"
  "reachable run_cb jammed"
  unfolding full_def backlog_def jammed_def served_def
  by (intro reachable.contention reachable_completions reachable_ready)+

lemma reachable_full_locked: "reachable run_cb full_locked"
  unfolding full_locked_def by (intro reachable.contention reachable_examples)

lemma reachable_recovered: "reachable run_cb recovered"
  unfolding recovered_def by (intro reachable.polled reachable_examples)

lemma quiet_idle: "quiet (\<lambda>f d n s. s)"
  by (simp add: quiet_def)

subsection \<open>The queue bound\<close>

text \<open>
  When the first take succeeds, the callback reads the true queue length and the bound
  holds: a queue of at most 10 packets has at most 10 afterwards, and a full queue is left
  as it is.
\<close>

lemma onSpiTransaction_bound_when_counted:
  assumes "queueSemaphore s = Available" and "length (receiveQueue s) \<le> maxQueueSize"
  shows "length (receiveQueue (onSpiTransaction now trans_len blk sem s)) \<le> maxQueueSize"
    and "length (receiveQueue s) = maxQueueSize \<Longrightarrow>
         receiveQueue (onSpiTransaction now trans_len blk sem s) = receiveQueue s"
  using assms onSpiTransaction_queue [of now trans_len blk sem s] by auto

text \<open>
  C1, evaluated where the code breaks it. The handler is in the reachable state with ten
  packets queued while another context holds the mutex. A four-byte transfer completes:
  the take inside \<^verbatim>\<open>pendingReceiveCount()\<close> times out, so the callback reads a count of 0
  and takes the queue for not full; the mutex has been given back when
  \<^verbatim>\<open>xSemaphoreTakeFromISR\<close> asks for it, and the callback pushes an eleventh packet.
  \<open>transactionCount\<close> goes from 10 to 11, as the claim says.
\<close>

theorem onSpiTransaction_overfills_queue:
  "length (receiveQueue full_locked) = maxQueueSize
   \<and> queueSemaphore full_locked = Held
   \<and> pendingReceiveCount full_locked = 0
   \<and> length (receiveQueue (onSpiTransaction 5000 32 (0, []) Available full_locked)) = 11
   \<and> transactionCount (onSpiTransaction 5000 32 (0, []) Available full_locked) = 11"
proof -
  have "onSpiTransaction 5000 32 (0, []) Available full_locked
      = full_locked\<lparr>lastTransactionTime := 5000, transactionActive := False,
           transactionCount := transactionCount full_locked + 1,
           bufferPool := bufferPool fresh, heap := heap fresh,
           queueSemaphore := Available,
           receiveQueue := receiveQueue full_locked @ [new_SPIDataPacket
              (deref (heap_write 16 (\<lambda>bs. memcpy bs (replicate SPI_BUFFER_SIZE 0) 4)
                        (heap fresh)) 16) 4],
           rxBuffer := replicate SPI_BUFFER_SIZE 0, dataReady := False,
           needsNewTransaction := True\<rparr>"
    by (intro completion_pushes) (simp_all add: full_locked_def full_fields)
  then show ?thesis
    by (simp add: full_locked_def full_fields maxQueueSize_def pendingReceiveCount_def
        xSemaphoreTake_def)
qed

subsection \<open>The watchdog\<close>

lemma ensureTransactionQueued_recoveryAttempts:
  "recoveryAttempts (snd (ensureTransactionQueued r s)) = recoveryAttempts s"
  by (simp add: ensureTransactionQueued_def spi_slave_queue_trans_def Let_def)

text \<open>The 32-bit product \<^verbatim>\<open>_transactionTimeout * 2\<close> against a 32-bit elapsed time.\<close>

lemma doubled_timeout_less:
  fixes t :: "32 word"
  assumes "2 * unat t < unat e"
  shows "t * 2 < e"
proof -
  have "unat e < 2 ^ 32" using unsigned_less [of e] by simp
  with assms have "unat t * 2 < 2 ^ 32" by simp
  then have "unat (t * 2) = unat t * 2"
    by (simp add: unat_word_ariths)
  with assms show ?thesis by (simp add: word_less_nat_alt)
qed

text \<open>
  \<open>_lastTransactionTime\<close> is written by the completion callback (line 142, lemma
  \<open>onSpiTransaction_time\<close>) and by a successful \<^verbatim>\<open>resetSPIInterface\<close> (line 483, under
  "Reset transaction tracking"); every recovery attempt is counted.
\<close>

lemma resetSPIInterface_recoveryAttempts:
  "recoveryAttempts (snd (resetSPIInterface ri rq now s)) = recoveryAttempts s + 1"
  by (simp add: resetSPIInterface_def Let_def case_prod_beta prepareDataToSend_def
      init_frame spi_slave_free_def)

lemma resetSPIInterface_frame:
  assumes "fst (resetSPIInterface ri rq now s)"
  shows "initialized (snd (resetSPIInterface ri rq now s))"
    "lastTransactionTime (snd (resetSPIInterface ri rq now s)) = now"
    "\<not> transactionActive (snd (resetSPIInterface ri rq now s))"
    "transactionCount (snd (resetSPIInterface ri rq now s)) = transactionCount s"
    "transactionTimeout (snd (resetSPIInterface ri rq now s)) = transactionTimeout s"
    "needsNewTransaction (snd (resetSPIInterface ri rq now s)) = needsNewTransaction s"
  using assms
  by (simp_all add: resetSPIInterface_def Let_def case_prod_beta prepareDataToSend_def
      init_frame init_success spi_slave_free_def split: if_splits)

text \<open>The example state after a recovery.\<close>

lemma served_needs: "needsNewTransaction served"
  by (simp add: served_def onSpiTransaction_def Let_def case_prod_beta)

lemma recovered_eq:
  "recovered = snd (resetSPIInterface ESP_OK (\<lambda>i. ESP_OK) 7101 served)"
  by (simp add: recovered_def checkAndRecoverFromStalledTransaction_def Let_def served_fields)

lemma recovered_fields:
  "initialized recovered" "\<not> transactionActive recovered" "transactionCount recovered = 1"
  "lastTransactionTime recovered = 7101" "transactionTimeout recovered = 3000"
  "recoveryAttempts recovered = 1" "needsNewTransaction recovered"
  using resetSPIInterface_frame [of ESP_OK "\<lambda>i. ESP_OK" 7101 served]
  by (simp_all add: recovered_eq reset_all_ok served_fields resetSPIInterface_recoveryAttempts
      served_needs)

text \<open>
  C3, as the claim states it, fails. The handler completed its only transfer at time 1000;
  the poll at time 7001 found the link silent and recovered it, and the recovery stored
  its own time, 7101, in \<open>_lastTransactionTime\<close>. At the poll at time 8000 the handler is
  initialised, no transfer is active, the counter is 1 and 7000 ms, more than twice the
  timeout of 3000 ms, have elapsed since the last completion: the poll only re-queues the
  missed transaction and does not call \<^verbatim>\<open>resetSPIInterface\<close> (the recovery-attempt
  counter stays 1; a call would make it 2).
\<close>

theorem watchdog_waits_after_recovery:
  "reachable (\<lambda>f d n s. s) recovered
   \<and> lastTransactionTime served = 1000
   \<and> lastTransactionTime recovered = 7101
   \<and> initialized recovered \<and> \<not> transactionActive recovered
   \<and> transactionCount recovered = 1 \<and> transactionTimeout recovered = 3000
   \<and> recoveryAttempts recovered = 1
   \<and> unat (8000 - 1000 :: 32 word) > 2 * unat (transactionTimeout recovered)
   \<and> checkAndRecoverFromStalledTransaction 8000 ESP_OK (\<lambda>i. ESP_OK) 8100 ESP_OK recovered
       = (True, snd (ensureTransactionQueued ESP_OK recovered))
   \<and> recoveryAttempts (snd (checkAndRecoverFromStalledTransaction 8000 ESP_OK (\<lambda>i. ESP_OK)
        8100 ESP_OK recovered)) = 1
   \<and> recoveryAttempts (snd (resetSPIInterface ESP_OK (\<lambda>i. ESP_OK) 8100 recovered)) = 2
   \<and> checkAndRecoverFromStalledTransaction 8000 ESP_OK (\<lambda>i. ESP_OK) 8100 ESP_OK recovered
       \<noteq> resetSPIInterface ESP_OK (\<lambda>i. ESP_OK) 8100 recovered"
proof -
  have poll: "checkAndRecoverFromStalledTransaction 8000 ESP_OK (\<lambda>i. ESP_OK) 8100 ESP_OK recovered
       = (True, snd (ensureTransactionQueued ESP_OK recovered))"
    by (simp add: checkAndRecoverFromStalledTransaction_def Let_def recovered_fields)
  have a: "recoveryAttempts (snd (ensureTransactionQueued ESP_OK recovered)) = 1"
    by (simp add: ensureTransactionQueued_recoveryAttempts recovered_fields)
  have b: "recoveryAttempts (snd (resetSPIInterface ESP_OK (\<lambda>i. ESP_OK) 8100 recovered)) = 2"
    by (simp add: resetSPIInterface_recoveryAttempts recovered_fields)
  have "(True, snd (ensureTransactionQueued ESP_OK recovered))
       \<noteq> resetSPIInterface ESP_OK (\<lambda>i. ESP_OK) 8100 recovered"
  proof
    assume "(True, snd (ensureTransactionQueued ESP_OK recovered))
       = resetSPIInterface ESP_OK (\<lambda>i. ESP_OK) 8100 recovered"
    then have "snd (resetSPIInterface ESP_OK (\<lambda>i. ESP_OK) 8100 recovered)
       = snd (ensureTransactionQueued ESP_OK recovered)"
      by (metis snd_conv)
    with a b show False by simp
  qed
  with poll a b show ?thesis
    by (simp add: recovered_fields served_fields reachable_recovered)
qed

text \<open>
  C3, amended. The watchdog measures silence as \<^verbatim>\<open>millis() - _lastTransactionTime\<close> on
  32-bit \<^verbatim>\<open>unsigned long\<close>, and the field holds the time of the last completion or, if
  later, of the last successful recovery: the completion callback and a successful
  \<^verbatim>\<open>resetSPIInterface\<close> both store \<^verbatim>\<open>millis()\<close> in it. For every initialised state with
  no active transfer: if more than twice the transaction timeout has elapsed since that
  time and the completed-transaction counter is at least 1, the poll is exactly a call of
  \<^verbatim>\<open>resetSPIInterface\<close>; if the counter is 0, then whatever time has elapsed the poll does
  not call it (it only services a missed re-queue, and the recovery-attempt counter
  stays as it was).
\<close>

theorem watchdog_link_silence:
  assumes "initialized s" and "\<not> transactionActive s"
  shows "(2 * unat (transactionTimeout s) < unat (now - lastTransactionTime s)
            \<and> 1 \<le> unat (transactionCount s) \<longrightarrow>
          checkAndRecoverFromStalledTransaction now ret_init ret_queue now' ret_q s
            = resetSPIInterface ret_init ret_queue now' s)
       \<and> (transactionCount s = 0 \<longrightarrow>
          checkAndRecoverFromStalledTransaction now ret_init ret_queue now' ret_q s
            = (if needsNewTransaction s then (True, snd (ensureTransactionQueued ret_q s))
               else (False, s))
          \<and> recoveryAttempts
               (snd (checkAndRecoverFromStalledTransaction now ret_init ret_queue now' ret_q s))
             = recoveryAttempts s)
       \<and> lastTransactionTime (onSpiTransaction t trans_len blk sem s) = t
       \<and> (fst (resetSPIInterface ret_init ret_queue now' s) \<longrightarrow>
          lastTransactionTime (snd (resetSPIInterface ret_init ret_queue now' s)) = now')"
proof (intro conjI impI)
  assume h: "2 * unat (transactionTimeout s) < unat (now - lastTransactionTime s)
            \<and> 1 \<le> unat (transactionCount s)"
  then have "transactionTimeout s * 2 < now - lastTransactionTime s"
    by (simp add: doubled_timeout_less)
  moreover from h have "0 < transactionCount s"
    by (simp add: word_less_nat_alt)
  ultimately show "checkAndRecoverFromStalledTransaction now ret_init ret_queue now' ret_q s
            = resetSPIInterface ret_init ret_queue now' s"
    using assms by (simp add: checkAndRecoverFromStalledTransaction_def Let_def)
next
  assume "transactionCount s = 0"
  then show "checkAndRecoverFromStalledTransaction now ret_init ret_queue now' ret_q s
            = (if needsNewTransaction s then (True, snd (ensureTransactionQueued ret_q s))
               else (False, s))"
    using assms by (simp add: checkAndRecoverFromStalledTransaction_def Let_def)
  then show "recoveryAttempts
               (snd (checkAndRecoverFromStalledTransaction now ret_init ret_queue now' ret_q s))
             = recoveryAttempts s"
    by (simp add: ensureTransactionQueued_recoveryAttempts)
next
  show "lastTransactionTime (onSpiTransaction t trans_len blk sem s) = t"
    by (rule onSpiTransaction_time)
next
  assume "fst (resetSPIInterface ret_init ret_queue now' s)"
  then show "lastTransactionTime (snd (resetSPIInterface ret_init ret_queue now' s)) = now'"
    by (rule resetSPIInterface_frame)
qed

theorem watchdog_link_silence_witness:
  "checkAndRecoverFromStalledTransaction 7001 ESP_OK (\<lambda>i. ESP_OK) 7101 ESP_OK served
     = resetSPIInterface ESP_OK (\<lambda>i. ESP_OK) 7101 served
   \<and> lastTransactionTime (snd (resetSPIInterface ESP_OK (\<lambda>i. ESP_OK) 7101 served)) = 7101
   \<and> checkAndRecoverFromStalledTransaction 4000000000 ESP_OK (\<lambda>i. ESP_OK) 4000000100 ESP_OK ready
     = (False, ready)"
  using watchdog_link_silence [of served 7001 ESP_OK "\<lambda>i. ESP_OK" 7101 ESP_OK]
    watchdog_link_silence [of ready 4000000000 ESP_OK "\<lambda>i. ESP_OK" 4000000100 ESP_OK]
  by (simp add: served_fields ready_fields reset_all_ok)

subsection \<open>Recovery of a reachable handler\<close>

text \<open>
  C2, as the claim states it, fails: the queue is drained only inside
  \<^verbatim>\<open>if (xSemaphoreTake(_queueSemaphore, pdMS_TO_TICKS(1000)) == pdTRUE)\<close>. In the
  reachable state with one packet queued and the mutex held by another context, recovery
  succeeds and the packet is still queued.
\<close>

theorem resetSPIInterface_keeps_queue_when_locked:
  "reachable (\<lambda>f d n s. s) jammed \<and> length (receiveQueue jammed) = 1
   \<and> fst (resetSPIInterface ESP_OK (\<lambda>i. ESP_OK) 7000 jammed)
   \<and> receiveQueue (snd (resetSPIInterface ESP_OK (\<lambda>i. ESP_OK) 7000 jammed))
       = receiveQueue jammed"
  using resetSPIInterface_result(2) [of ESP_OK "\<lambda>i. ESP_OK" 7000 jammed]
  by (simp add: reset_all_ok jammed_def served_fields reachable_examples [unfolded jammed_def])

text \<open>
  C2, amended. In every reachable state (with callbacks that act on the handler only
  through its member functions) in which recovery succeeds (the nested \<^verbatim>\<open>init\<close>
  returns true), \<^verbatim>\<open>resetSPIInterface\<close> increments the recovery-attempt counter,
  clears the transaction-active flag, zeroes both persistent buffers, sets \<open>txLength\<close> to 0
  and \<open>dataReady\<close> to false, empties the receive queue if the queue mutex can be taken
  within its 1000 ms bound and leaves the queue as it is otherwise, and then stages
  exactly the 4-byte beacon \<open>{0xAA, 0x55, 0xAA, 0x55}\<close>: the call ends with the beacon
  followed by zeros in the transmit buffer, \<open>txLength = 4\<close> and \<open>dataReady\<close> set.
\<close>

theorem resetSPIInterface_success:
  assumes "quiet run_cb" and "reachable run_cb s"
    and "fst (resetSPIInterface ri rq now s)"
  shows "(\<exists>s6. snd (resetSPIInterface ri rq now s)
                 = snd (prepareDataToSend (Some [0xAA, 0x55, 0xAA, 0x55]) 4 s6)
            \<and> fst (prepareDataToSend (Some [0xAA, 0x55, 0xAA, 0x55]) 4 s6)
            \<and> txBuffer s6 = replicate SPI_BUFFER_SIZE 0
            \<and> rxBuffer s6 = replicate SPI_BUFFER_SIZE 0
            \<and> txLength s6 = 0 \<and> \<not> dataReady s6 \<and> \<not> transactionActive s6
            \<and> recoveryAttempts s6 = recoveryAttempts s + 1
            \<and> receiveQueue s6 = (if queueSemaphore s = Available then [] else receiveQueue s))
       \<and> recoveryAttempts (snd (resetSPIInterface ri rq now s)) = recoveryAttempts s + 1
       \<and> \<not> transactionActive (snd (resetSPIInterface ri rq now s))
       \<and> rxBuffer (snd (resetSPIInterface ri rq now s)) = replicate SPI_BUFFER_SIZE 0
       \<and> txBuffer (snd (resetSPIInterface ri rq now s))
           = [0xAA, 0x55, 0xAA, 0x55] @ replicate (SPI_BUFFER_SIZE - 4) 0
       \<and> txLength (snd (resetSPIInterface ri rq now s)) = 4
       \<and> dataReady (snd (resetSPIInterface ri rq now s))
       \<and> receiveQueue (snd (resetSPIInterface ri rq now s))
           = (if queueSemaphore s = Available then [] else receiveQueue s)"
proof -
  from reachable_buffers [OF assms(1,2)]
  have b: "bufferSize s = SPI_BUFFER_SIZE" "length (txBuffer s) = bufferSize s"
    "length (rxBuffer s) = bufferSize s"
    by (simp_all add: buffers_ok_def)
  from resetSPIInterface_result [OF assms(3) b] show ?thesis
    by (simp add: b(1))
qed

theorem resetSPIInterface_success_witness:
  "quiet (\<lambda>f d n s. s) \<and> reachable (\<lambda>f d n s. s) full
   \<and> fst (resetSPIInterface ESP_OK (\<lambda>i. ESP_OK) 7000 full)
   \<and> length (receiveQueue full) = 10
   \<and> receiveQueue (snd (resetSPIInterface ESP_OK (\<lambda>i. ESP_OK) 7000 full)) = []
   \<and> take 4 (txBuffer (snd (resetSPIInterface ESP_OK (\<lambda>i. ESP_OK) 7000 full)))
       = [0xAA, 0x55, 0xAA, 0x55]
   \<and> txLength (snd (resetSPIInterface ESP_OK (\<lambda>i. ESP_OK) 7000 full)) = 4
   \<and> recoveryAttempts (snd (resetSPIInterface ESP_OK (\<lambda>i. ESP_OK) 7000 full)) = 1"
  using resetSPIInterface_success [of "\<lambda>f d n s. s" full ESP_OK "\<lambda>i. ESP_OK" 7000]
  by (simp add: reset_all_ok full_fields quiet_idle reachable_examples)

subsection \<open>The command protocol\<close>

text \<open>
  C5. For every reachable, initialised state with no receive callback registered (earlier
  callbacks having acted on the handler only through its member functions), handling a
  packet whose first byte is 0x01 (ping) is exactly one successful call of
  \<^verbatim>\<open>prepareDataToSend\<close>, with the 4 bytes \<open>{0x02, 0x00, s, 0x00}\<close> where \<open>s\<close> is what
  \<^verbatim>\<open>getBufferStatus()\<close> returns in the state in which the packet is handled; nothing
  else in the handler changes.
\<close>

theorem ping_stages_pong:
  assumes "quiet run_cb" and "reachable run_cb s"
    and "initialized s" and "receiveCallback s = None" and "0 < n" and "d = 0x01 # rest"
  shows "handleReceivedData run_cb d n s
           = snd (prepareDataToSend (Some [0x02, 0x00, getBufferStatus s, 0x00]) 4 s)
       \<and> fst (prepareDataToSend (Some [0x02, 0x00, getBufferStatus s, 0x00]) 4 s)
       \<and> handleReceivedData run_cb d n s
           = s\<lparr>txBuffer := [0x02, 0x00, getBufferStatus s, 0x00]
                              @ replicate (SPI_BUFFER_SIZE - 4) 0,
               txLength := 4, dataReady := True\<rparr>"
proof -
  from reachable_buffers [OF assms(1,2)]
  have b: "bufferSize s = SPI_BUFFER_SIZE" "length (txBuffer s) = SPI_BUFFER_SIZE"
    by (simp_all add: buffers_ok_def)
  have "4 \<le> SPI_BUFFER_SIZE" by (simp add: SPI_BUFFER_SIZE_def)
  with assms(3-6) b show ?thesis
    by (simp add: handleReceivedData_def prepareDataToSend_def PING_def PONG_def
        memset_whole memcpy_into_zeros)
qed

theorem ping_stages_pong_witness:
  "quiet (\<lambda>f d n s. s) \<and> reachable (\<lambda>f d n s. s) backlog
   \<and> getBufferStatus backlog = 30
   \<and> take 4 (txBuffer (handleReceivedData (\<lambda>f d n s. s) [0x01, 0x00, 0x00, 0x00] 4 backlog))
       = [0x02, 0x00, 30, 0x00]
   \<and> txLength (handleReceivedData (\<lambda>f d n s. s) [0x01, 0x00, 0x00, 0x00] 4 backlog) = 4"
proof -
  have st: "getBufferStatus backlog = 30"
    by (simp add: getBufferStatus_def pendingReceiveCount_def xSemaphoreTake_def
        backlog_fields maxQueueSize_def)
  from ping_stages_pong [OF quiet_idle reachable_examples(2) backlog_fields(4,5),
      of 4 "[0x01, 0x00, 0x00, 0x00]" "[0x00, 0x00, 0x00]", THEN conjunct2, THEN conjunct2]
  have "handleReceivedData (\<lambda>f d n s. s) [0x01, 0x00, 0x00, 0x00] 4 backlog
          = backlog\<lparr>txBuffer := [0x02, 0x00, getBufferStatus backlog, 0x00]
                                   @ replicate (SPI_BUFFER_SIZE - 4) 0,
                     txLength := 4, dataReady := True\<rparr>"
    by simp
  then show ?thesis
    by (simp add: st quiet_idle reachable_examples)
qed

subsection \<open>The buffer pool\<close>

text \<open>What the two loops over the pool return.\<close>

lemma getBuffer_scan_Some:
  "getBuffer_scan bs = Some (p, bs') \<Longrightarrow>
   \<exists>i < length bs. data (bs ! i) = p \<and> p \<noteq> nullptr \<and> \<not> inUse (bs ! i)
       \<and> bs' = bs[i := (bs ! i)\<lparr>inUse := True\<rparr>]"
proof (induction bs arbitrary: bs')
  case Nil
  then show ?case by simp
next
  case (Cons b bs)
  show ?case
  proof (cases "\<not> inUse b \<and> data b \<noteq> nullptr")
    case True
    with Cons.prems have "p = data b" "bs' = b\<lparr>inUse := True\<rparr> # bs" by auto
    with True show ?thesis by (intro exI [of _ 0]) simp
  next
    case False
    with Cons.prems obtain bs'' where s: "getBuffer_scan bs = Some (p, bs'')" and e: "bs' = b # bs''"
      by (auto split: option.splits)
    from Cons.IH [OF s] obtain i where "i < length bs" "data (bs ! i) = p" "p \<noteq> nullptr"
      "\<not> inUse (bs ! i)" "bs'' = bs[i := (bs ! i)\<lparr>inUse := True\<rparr>]" by blast
    with e show ?thesis by (intro exI [of _ "Suc i"]) simp
  qed
qed

lemma getBuffer_scan_None_iff:
  "getBuffer_scan bs = None \<longleftrightarrow> list_all (\<lambda>b. inUse b \<or> data b = nullptr) bs"
  by (induction bs) (auto split: if_splits option.splits)

lemma returnBuffer_scan_Some:
  "returnBuffer_scan bs p = Some bs' \<Longrightarrow>
   \<exists>i < length bs. data (bs ! i) = p \<and> bs' = bs[i := (bs ! i)\<lparr>inUse := False\<rparr>]"
proof (induction bs arbitrary: bs')
  case Nil
  then show ?case by simp
next
  case (Cons b bs)
  show ?case
  proof (cases "data b = p")
    case True
    with Cons.prems have "bs' = b\<lparr>inUse := False\<rparr> # bs" by auto
    with True show ?thesis by (intro exI [of _ 0]) simp
  next
    case False
    with Cons.prems obtain bs'' where s: "returnBuffer_scan bs p = Some bs''" and e: "bs' = b # bs''"
      by (auto split: option.splits)
    from Cons.IH [OF s] obtain i where "i < length bs" "data (bs ! i) = p"
      "bs'' = bs[i := (bs ! i)\<lparr>inUse := False\<rparr>]" by blast
    with e False show ?thesis by (intro exI [of _ "Suc i"]) simp
  qed
qed

lemma returnBuffer_scan_None:
  "returnBuffer_scan bs p = None \<Longrightarrow> b \<in> set bs \<Longrightarrow> data b \<noteq> p"
  by (induction bs) (auto split: if_splits option.splits)

text \<open>Marking an entry keeps the pointers of the pool.\<close>

lemma map_data_mark:
  "map data (bs[i := (bs ! i)\<lparr>inUse := v\<rparr>]) = map data bs"
proof (cases "i < length bs")
  case True
  have "map data (bs[i := (bs ! i)\<lparr>inUse := v\<rparr>]) = (map data bs)[i := data (bs ! i)]"
    by (simp add: map_update)
  also have "data (bs ! i) = map data bs ! i" using True by simp
  finally show ?thesis by (simp only: list_update_id)
next
  case False
  then have "length bs \<le> i" by simp
  then show ?thesis by (simp add: list_update_beyond)
qed

lemma mark_member:
  assumes "b \<in> set (bs[i := (bs ! i)\<lparr>inUse := v\<rparr>])" and "i < length bs"
  shows "b = (bs ! i)\<lparr>inUse := v\<rparr> \<or> b \<in> set bs"
  using assms set_update_subset_insert [of bs i "(bs ! i)\<lparr>inUse := v\<rparr>"] by auto

lemma pool_pointer_unique:
  assumes "distinct (filter (\<lambda>a. a \<noteq> nullptr) (map data bs))"
    and "b \<in> set bs" and "b' \<in> set bs" and "data b = data b'" and "data b \<noteq> nullptr"
  shows "b = b'"
proof -
  have "filter (\<lambda>a. a \<noteq> nullptr) (map data bs) = map data (filter (\<lambda>b. data b \<noteq> nullptr) bs)"
    by (simp add: filter_map comp_def)
  with assms(1) have "inj_on data (set (filter (\<lambda>b. data b \<noteq> nullptr) bs))"
    by (simp add: distinct_map)
  moreover from assms have "b \<in> set (filter (\<lambda>b. data b \<noteq> nullptr) bs)"
    "b' \<in> set (filter (\<lambda>b. data b \<noteq> nullptr) bs)" by simp_all
  ultimately show ?thesis using assms(4) by (auto dest: inj_onD)
qed

lemma step_bufferSize: "bufferSize (step c s) = bufferSize s"
  by (cases c) (simp_all add: getBuffer_def returnBuffer_def case_prod_beta split: option.splits)

lemma step_pointers: "map data (bufferPool (step c s)) = map data (bufferPool s)"
proof (cases c)
  case (Get blk)
  then show ?thesis
    by (auto simp: getBuffer_def case_prod_beta map_data_mark split: option.splits
        dest!: getBuffer_scan_Some)
next
  case (Fill p src n)
  then show ?thesis by simp
next
  case (Return p)
  then show ?thesis
    by (auto simp: returnBuffer_def map_data_mark split: option.splits
        dest!: returnBuffer_scan_Some)
qed

lemma getBuffer_pool_ok:
  assumes "pool_ok s"
  shows "pool_ok (snd (getBuffer blk s))"
proof (cases "getBuffer_scan (bufferPool s)")
  case None
  obtain a junk where blk: "blk = (a, junk)" by (cases blk)
  show ?thesis
  proof (cases "a \<noteq> nullptr \<and> heap s a = None \<and> length junk = bufferSize s")
    case True
    then have eq: "snd (getBuffer blk s) = s\<lparr>heap := (heap s)(a \<mapsto> junk)\<rparr>"
      using None by (simp add: getBuffer_def heap_caps_malloc_def blk)
    have "\<forall>b \<in> set (bufferPool s). data b \<noteq> nullptr \<longrightarrow> data b \<noteq> a"
      using assms True by (auto simp: pool_ok_def)
    with assms show ?thesis
      unfolding eq pool_ok_def by auto
  next
    case False
    then have "snd (getBuffer blk s) = s\<lparr>heap := heap s\<rparr>"
      using None by (auto simp add: getBuffer_def heap_caps_malloc_def blk)
    with assms show ?thesis by (simp add: pool_ok_def)
  qed
next
  case (Some r)
  obtain p bs' where r: "r = (p, bs')" by (cases r)
  from getBuffer_scan_Some [OF Some [unfolded r]] obtain i where
    i: "i < length (bufferPool s)" and bs': "bs' = (bufferPool s)[i := (bufferPool s ! i)\<lparr>inUse := True\<rparr>]"
    by blast
  have eq: "snd (getBuffer blk s) = s\<lparr>bufferPool := bs'\<rparr>"
    using Some r by (simp add: getBuffer_def)
  have old: "b \<in> set (bufferPool s)" if "b \<in> set bs'" and "\<not> inUse b" for b
    using mark_member [OF that(1) [unfolded bs'] i] that(2) by auto
  have ptr: "\<exists>b' \<in> set (bufferPool s). data b' = data b" if "b \<in> set bs'" for b
    using mark_member [OF that [unfolded bs'] i] i by (auto intro: nth_mem)
  have "distinct (filter (\<lambda>a. a \<noteq> nullptr) (map data bs'))"
    using assms by (simp add: bs' map_data_mark pool_ok_def)
  moreover have "\<exists>bs. heap s (data b) = Some bs \<and> length bs = bufferSize s"
    if "b \<in> set bs'" and "data b \<noteq> nullptr" for b
    using ptr [OF that(1)] that(2) assms by (auto simp: pool_ok_def)
  moreover have "heap s (data b) = Some (replicate (bufferSize s) 0)"
    if "b \<in> set bs'" and "data b \<noteq> nullptr" and "\<not> inUse b" for b
    using old [OF that(1) that(3)] that assms by (auto simp: pool_ok_def)
  ultimately show ?thesis
    unfolding eq pool_ok_def by simp
qed


lemma returnBuffer_pool_ok:
  assumes "pool_ok s"
  shows "pool_ok (returnBuffer p s)"
proof (cases "returnBuffer_scan (bufferPool s) p")
  case None
  then have eq: "returnBuffer p s = s\<lparr>heap := (heap s)(p := None)\<rparr>"
    by (simp add: returnBuffer_def heap_caps_free_def)
  have "data b \<noteq> p" if "b \<in> set (bufferPool s)" for b
    using returnBuffer_scan_None [OF None that] .
  with assms show ?thesis
    unfolding eq pool_ok_def by auto
next
  case (Some bs')
  from returnBuffer_scan_Some [OF Some] obtain i where
    i: "i < length (bufferPool s)" and p: "data (bufferPool s ! i) = p"
    and bs': "bs' = (bufferPool s)[i := (bufferPool s ! i)\<lparr>inUse := False\<rparr>]"
    by blast
  define h' where "h' = heap_write p (\<lambda>bs. memset bs 0 (bufferSize s)) (heap s)"
  have eq: "returnBuffer p s = s\<lparr>bufferPool := bs', heap := h'\<rparr>"
    using Some by (simp add: returnBuffer_def h'_def)
  have ptr: "\<exists>b' \<in> set (bufferPool s). data b' = data b \<and> (inUse b' = inUse b \<or> data b = p)"
    if "b \<in> set bs'" for b
    using mark_member [OF that [unfolded bs'] i] i p by (auto intro: nth_mem)
  have alloc: "\<exists>bs. heap s (data b) = Some bs \<and> length bs = bufferSize s"
    if "b \<in> set (bufferPool s)" and "data b \<noteq> nullptr" for b
    using that assms by (auto simp: pool_ok_def)
  have at_p: "h' p = Some (replicate (bufferSize s) 0)" if "p \<noteq> nullptr"
  proof -
    from alloc [of "bufferPool s ! i"] i p that
    obtain bs where "heap s p = Some bs" "length bs = bufferSize s" by auto
    then show ?thesis by (simp add: h'_def heap_write_apply memset_whole)
  qed
  have other: "h' q = heap s q" if "q \<noteq> p" for q
    using that by (simp add: h'_def heap_write_apply)
  have "distinct (filter (\<lambda>a. a \<noteq> nullptr) (map data bs'))"
    using assms by (simp add: bs' map_data_mark pool_ok_def)
  moreover have "\<exists>bs. h' (data b) = Some bs \<and> length bs = bufferSize s"
    if "b \<in> set bs'" and "data b \<noteq> nullptr" for b
  proof (cases "data b = p")
    case True
    with at_p that show ?thesis by simp
  next
    case False
    from ptr [OF that(1)] obtain b' where "b' \<in> set (bufferPool s)" "data b' = data b" by blast
    with alloc [of b'] that(2) other [OF False] show ?thesis by simp
  qed
  moreover have "h' (data b) = Some (replicate (bufferSize s) 0)"
    if "b \<in> set bs'" and "data b \<noteq> nullptr" and "\<not> inUse b" for b
  proof (cases "data b = p")
    case True
    with at_p that show ?thesis by simp
  next
    case False
    from ptr [OF that(1)] False obtain b' where "b' \<in> set (bufferPool s)" "data b' = data b"
      "inUse b' = inUse b" by blast
    with assms that other [OF False] show ?thesis by (auto simp: pool_ok_def)
  qed
  ultimately show ?thesis
    unfolding eq pool_ok_def by simp
qed

lemma fill_pool_ok:
  assumes "pool_ok s" and "admitted (Fill p src n) s"
  shows "pool_ok (step (Fill p src n) s)"
proof -
  define h' where "h' = heap_write p (\<lambda>bs. memcpy bs src n) (heap s)"
  have eq: "step (Fill p src n) s = s\<lparr>heap := h'\<rparr>" by (simp add: h'_def)
  from assms(2) have n: "n \<le> length src" "n \<le> bufferSize s"
    and held: "\<And>b. b \<in> set (bufferPool s) \<Longrightarrow> data b \<noteq> p \<or> inUse b"
    by (auto simp: list_all_iff)
  have "\<exists>bs. h' (data b) = Some bs \<and> length bs = bufferSize s"
    if "b \<in> set (bufferPool s)" and "data b \<noteq> nullptr" for b
  proof -
    from assms(1) that obtain bs where bs: "heap s (data b) = Some bs" "length bs = bufferSize s"
      by (auto simp: pool_ok_def)
    then show ?thesis using n by (auto simp: h'_def heap_write_apply length_memcpy)
  qed
  moreover have "h' (data b) = Some (replicate (bufferSize s) 0)"
    if "b \<in> set (bufferPool s)" and "data b \<noteq> nullptr" and "\<not> inUse b" for b
  proof -
    from held [OF that(1)] that(3) have "data b \<noteq> p" by auto
    with assms(1) that show ?thesis by (auto simp: h'_def heap_write_apply pool_ok_def)
  qed
  ultimately show ?thesis
    using assms(1) unfolding eq pool_ok_def by simp
qed

lemma step_pool_ok: "pool_ok s \<Longrightarrow> admitted c s \<Longrightarrow> pool_ok (step c s)"
proof (cases c)
  case (Get blk)
  assume "pool_ok s"
  then show ?thesis unfolding Get by (simp add: getBuffer_pool_ok)
next
  case (Fill p src n)
  assume "pool_ok s" "admitted c s"
  then show ?thesis unfolding Fill by (rule fill_pool_ok)
next
  case (Return p)
  assume "pool_ok s"
  then show ?thesis unfolding Return by (simp add: returnBuffer_pool_ok)
qed

lemma run_pool_ok: "pool_ok s \<Longrightarrow> legal cs s \<Longrightarrow> pool_ok (run cs s)"
  by (induction cs arbitrary: s) (simp_all add: step_pool_ok)

lemma run_bufferSize: "bufferSize (run cs s) = bufferSize s"
  by (induction cs arbitrary: s) (simp_all add: step_bufferSize)

lemma run_pointers: "map data (bufferPool (run cs s)) = map data (bufferPool s)"
  by (induction cs arbitrary: s) (simp_all add: step_pointers)

lemma run_append: "run (cs @ ds) s = run ds (run cs s)"
  by (induction cs arbitrary: s) simp_all

lemma legal_append: "legal (cs @ ds) s = (legal cs s \<and> legal ds (run cs s))"
  by (induction cs arbitrary: s) auto


lemma heap_caps_malloc_cases:
  assumes "heap_caps_malloc n blk h = (p, h1)"
  shows "(p = nullptr \<and> h1 = h)
       \<or> (p \<noteq> nullptr \<and> h p = None \<and> (\<exists>junk. length junk = n \<and> h1 = h(p \<mapsto> junk)))"
  using assms by (cases blk) (auto simp: heap_caps_malloc_def split: if_splits)

lemma alloc_pool_ok:
  "alloc_pool n blks h = (pool, h') \<Longrightarrow>
     (\<forall>b \<in> set pool. \<not> inUse b)
   \<and> (\<forall>b \<in> set pool. data b \<noteq> nullptr \<longrightarrow>
         h (data b) = None \<and> h' (data b) = Some (replicate n 0))
   \<and> distinct (filter (\<lambda>a. a \<noteq> nullptr) (map data pool))
   \<and> (\<forall>a. h a \<noteq> None \<longrightarrow> h' a = h a)"
proof (induction blks arbitrary: h pool h')
  case Nil
  then show ?case by simp
next
  case (Cons blk blks)
  obtain p h1 where m: "heap_caps_malloc n blk h = (p, h1)"
    by (cases "heap_caps_malloc n blk h")
  define h2 where "h2 = (if p = nullptr then h1 else heap_write p (\<lambda>bs. memset bs 0 n) h1)"
  obtain pool0 h3 where rest: "alloc_pool n blks h2 = (pool0, h3)"
    by (cases "alloc_pool n blks h2")
  from Cons.prems m rest have pool: "pool = \<lparr>data = p, inUse = False\<rparr> # pool0" and h': "h' = h3"
    by (simp_all add: h2_def)
  have h2: "h2 = (if p = nullptr then h else h(p \<mapsto> replicate n 0))"
    using heap_caps_malloc_cases [OF m]
    by (auto simp: h2_def heap_write_def memset_whole)
  have fresh: "p \<noteq> nullptr \<Longrightarrow> h p = None"
    using heap_caps_malloc_cases [OF m] by auto
  note IH = Cons.IH [OF rest]
  have grow: "h a = None" if "h2 a = None" for a
    using that by (auto simp: h2 split: if_splits)
  have keep: "h3 a = h2 a" if "h2 a \<noteq> None" for a
    using IH that by blast
  have "\<forall>b \<in> set pool. \<not> inUse b"
    using IH by (simp add: pool)
  moreover have "\<forall>b \<in> set pool. data b \<noteq> nullptr \<longrightarrow>
         h (data b) = None \<and> h' (data b) = Some (replicate n 0)"
  proof (intro ballI impI)
    fix b assume b: "b \<in> set pool" "data b \<noteq> nullptr"
    show "h (data b) = None \<and> h' (data b) = Some (replicate n 0)"
    proof (cases "b \<in> set pool0")
      case True
      with IH b have "h2 (data b) = None" "h3 (data b) = Some (replicate n 0)" by auto
      then show ?thesis using grow h' by simp
    next
      case False
      with b pool have d: "data b = p" "p \<noteq> nullptr" by auto
      then have "h2 p = Some (replicate n 0)" by (simp add: h2)
      with keep [of p] d fresh show ?thesis by (simp add: h')
    qed
  qed
  moreover have "distinct (filter (\<lambda>a. a \<noteq> nullptr) (map data pool))"
  proof -
    have "p \<notin> set (map data pool0)" if "p \<noteq> nullptr"
    proof
      assume "p \<in> set (map data pool0)"
      then obtain b where "b \<in> set pool0" "data b = p" by auto
      with IH that have "h2 p = None" by auto
      with that show False by (simp add: h2)
    qed
    with IH show ?thesis by (auto simp: pool)
  qed
  moreover have "\<forall>a. h a \<noteq> None \<longrightarrow> h' a = h a"
  proof (intro allI impI)
    fix a assume a: "h a \<noteq> None"
    with fresh have "h2 a = h a" by (cases "p = nullptr") (auto simp: h2)
    with keep [of a] a show "h' a = h a" by (simp add: h')
  qed
  ultimately show ?case by blast
qed

lemma SPISlaveHandler_pool_ok: "pool_ok (SPISlaveHandler blk)"
proof -
  obtain pool h where a:
    "alloc_pool SPI_BUFFER_SIZE (map blk [0..<SPI_BUFFER_POOL_SIZE]) Map.empty = (pool, h)"
    by (cases "alloc_pool SPI_BUFFER_SIZE (map blk [0..<SPI_BUFFER_POOL_SIZE]) Map.empty")
  then have "bufferPool (SPISlaveHandler blk) = pool" "heap (SPISlaveHandler blk) = h"
    "bufferSize (SPISlaveHandler blk) = SPI_BUFFER_SIZE"
    by (simp_all add: SPISlaveHandler_def)
  with alloc_pool_ok [OF a] show ?thesis
    by (simp add: pool_ok_def)
qed

lemma SPISlaveHandler_bufferSize: "bufferSize (SPISlaveHandler blk) = SPI_BUFFER_SIZE"
  by (simp add: SPISlaveHandler_def case_prod_beta)

text \<open>A pointer that \<^verbatim>\<open>getBuffer\<close> returns belongs to no entry that is in use.\<close>

lemma getBuffer_not_in_use:
  assumes ok: "pool_ok s" and b: "b \<in> set (bufferPool s)" "data b \<noteq> nullptr"
    and ret: "data b = fst (getBuffer blk s)"
  shows "\<not> inUse b"
proof (cases "getBuffer_scan (bufferPool s)")
  case None
  obtain p h1 where m: "heap_caps_malloc (bufferSize s) blk (heap s) = (p, h1)"
    by (cases "heap_caps_malloc (bufferSize s) blk (heap s)")
  with None have "fst (getBuffer blk s) = p" by (simp add: getBuffer_def)
  with heap_caps_malloc_cases [OF m] ret b(2) have "heap s (data b) = None" by auto
  with ok b show ?thesis by (auto simp: pool_ok_def)
next
  case (Some r)
  obtain p bs' where r: "r = (p, bs')" by (cases r)
  from getBuffer_scan_Some [OF Some [unfolded r]] obtain i where
    i: "i < length (bufferPool s)" "data (bufferPool s ! i) = p" "\<not> inUse (bufferPool s ! i)"
    by blast
  from Some r have "fst (getBuffer blk s) = p" by (simp add: getBuffer_def)
  with ret i have "data b = data (bufferPool s ! i)" by simp
  moreover have "bufferPool s ! i \<in> set (bufferPool s)" using i by simp
  ultimately have "b = bufferPool s ! i"
    using ok b by (auto simp: pool_ok_def intro: pool_pointer_unique)
  with i show ?thesis by simp
qed

lemma returnBuffer_frees:
  assumes "pool_ok s" and "p \<noteq> nullptr"
  shows "free_in (returnBuffer p s) p"
proof (cases "returnBuffer_scan (bufferPool s) p")
  case None
  then have "bufferPool (returnBuffer p s) = bufferPool s"
    by (simp add: returnBuffer_def)
  with returnBuffer_scan_None [OF None] show ?thesis
    by (auto simp: free_in_def list_all_iff)
next
  case (Some bs')
  from returnBuffer_scan_Some [OF Some] obtain i where
    i: "i < length (bufferPool s)" and p: "data (bufferPool s ! i) = p"
    and bs': "bs' = (bufferPool s)[i := (bufferPool s ! i)\<lparr>inUse := False\<rparr>]"
    by blast
  have pool: "bufferPool (returnBuffer p s) = bs'"
    using Some by (simp add: returnBuffer_def)
  have marked: "(bufferPool s ! i)\<lparr>inUse := False\<rparr> \<in> set bs'"
    unfolding bs' using i by (simp add: set_update_memI)
  have uniq: "distinct (filter (\<lambda>a. a \<noteq> nullptr) (map data bs'))"
    using returnBuffer_pool_ok [OF assms(1), of p] by (simp add: pool_ok_def pool)
  have "\<not> inUse b" if "b \<in> set bs'" and "data b = p" for b
  proof -
    have "b = (bufferPool s ! i)\<lparr>inUse := False\<rparr>"
      using pool_pointer_unique [OF uniq that(1) marked] that(2) p assms(2) by simp
    then show ?thesis by simp
  qed
  then show ?thesis by (auto simp: free_in_def list_all_iff pool)
qed

lemma step_keeps_free:
  assumes "free_in s p" and "\<not> returned [c] s p"
  shows "free_in (step c s) p"
proof (cases c)
  case (Get blk)
  show ?thesis
  proof (cases "getBuffer_scan (bufferPool s)")
    case None
    then have "bufferPool (step c s) = bufferPool s"
      by (simp add: Get getBuffer_def case_prod_beta)
    with assms(1) show ?thesis by (simp add: free_in_def)
  next
    case (Some r)
    obtain q bs' where r: "r = (q, bs')" by (cases r)
    from getBuffer_scan_Some [OF Some [unfolded r]] obtain i where
      i: "i < length (bufferPool s)" and q: "data (bufferPool s ! i) = q"
      and bs': "bs' = (bufferPool s)[i := (bufferPool s ! i)\<lparr>inUse := True\<rparr>]"
      by blast
    from Some r have res: "fst (getBuffer blk s) = q" "bufferPool (step c s) = bs'"
      by (simp_all add: Get getBuffer_def)
    with assms(2) have "q \<noteq> p" by (simp add: Get)
    have "\<not> inUse b" if "b \<in> set bs'" and "data b = p" for b
    proof -
      from mark_member [OF that(1) [unfolded bs'] i] that(2) q \<open>q \<noteq> p\<close>
      have "b \<in> set (bufferPool s)" by auto
      with assms(1) that(2) show ?thesis by (auto simp: free_in_def list_all_iff)
    qed
    then show ?thesis by (auto simp: free_in_def list_all_iff res)
  qed
next
  case (Fill q src n)
  with assms(1) show ?thesis by (simp add: free_in_def)
next
  case (Return q)
  show ?thesis
  proof (cases "returnBuffer_scan (bufferPool s) q")
    case None
    then have "bufferPool (step c s) = bufferPool s"
      by (simp add: Return returnBuffer_def)
    with assms(1) show ?thesis by (simp add: free_in_def)
  next
    case (Some bs')
    from returnBuffer_scan_Some [OF Some] obtain i where
      i: "i < length (bufferPool s)"
      and bs': "bs' = (bufferPool s)[i := (bufferPool s ! i)\<lparr>inUse := False\<rparr>]"
      by blast
    have pool: "bufferPool (step c s) = bs'"
      using Some by (simp add: Return returnBuffer_def)
    have "\<not> inUse b" if "b \<in> set bs'" and "data b = p" for b
      using mark_member [OF that(1) [unfolded bs'] i] that(2) assms(1)
      by (auto simp: free_in_def list_all_iff)
    then show ?thesis by (auto simp: free_in_def list_all_iff pool)
  qed
qed

lemma returned_Cons: "returned (c # cs) s p = (returned [c] s p \<or> returned cs (step c s) p)"
  by (cases c) simp_all

lemma run_keeps_free:
  "free_in s p \<Longrightarrow> \<not> returned cs s p \<Longrightarrow> free_in (run cs s) p"
proof (induction cs arbitrary: s)
  case Nil
  then show ?case by simp
next
  case (Cons c cs)
  from Cons.prems(2) have "\<not> returned [c] s p" "\<not> returned cs (step c s) p"
    using returned_Cons [of c cs s p] by simp_all
  with Cons.IH [of "step c s"] step_keeps_free [OF Cons.prems(1)] show ?case by simp
qed

lemma exhausted_fields:
  "bufferPool exhausted
     = [\<lparr>data = 16, inUse = True\<rparr>, \<lparr>data = 17, inUse = True\<rparr>, \<lparr>data = 18, inUse = True\<rparr>,
        \<lparr>data = 19, inUse = True\<rparr>, \<lparr>data = 20, inUse = True\<rparr>, \<lparr>data = 21, inUse = True\<rparr>]"
  "heap exhausted = heap fresh" "bufferSize exhausted = SPI_BUFFER_SIZE"
  by (simp_all add: exhausted_def getBuffer_def fresh_pool_heap fresh_fields)

text \<open>With no free entry, \<^verbatim>\<open>getBuffer\<close> is its fallback allocation.\<close>

lemma getBuffer_fallback:
  assumes "list_all (\<lambda>b. inUse b \<or> data b = nullptr) (bufferPool s)"
  shows "getBuffer blk s
           = (fst (heap_caps_malloc (bufferSize s) blk (heap s)),
              s\<lparr>heap := snd (heap_caps_malloc (bufferSize s) blk (heap s))\<rparr>)"
  using assms by (simp add: getBuffer_def getBuffer_scan_None_iff [symmetric] case_prod_beta)

text \<open>
  C7, as the claim states it, fails: with every pool buffer in use, \<^verbatim>\<open>getBuffer\<close> does
  not return null but allocates a buffer itself (\<^verbatim>\<open>heap_caps_malloc\<close> after the loop) and
  returns it.
\<close>

theorem getBuffer_exhausted_allocates:
  "list_all inUse (bufferPool exhausted)
   \<and> fst (getBuffer (64, replicate SPI_BUFFER_SIZE 0xFF) exhausted) = 64"
  by (simp add: getBuffer_fallback exhausted_fields heap_caps_malloc_def fresh_pool_heap)

text \<open>
  C7, amended. For every pool state in which no buffer is free (every allocated pool
  buffer is marked in use), \<^verbatim>\<open>getBuffer\<close> leaves the pool as it is and returns the result
  of an ad-hoc allocation of \<open>bufferSize\<close> bytes that it makes itself: a fresh block outside
  the pool, or null only when that allocation fails.
\<close>

theorem getBuffer_exhausted:
  assumes "list_all (\<lambda>b. inUse b \<or> data b = nullptr) (bufferPool s)"
  shows "getBuffer blk s
           = (fst (heap_caps_malloc (bufferSize s) blk (heap s)),
              s\<lparr>heap := snd (heap_caps_malloc (bufferSize s) blk (heap s))\<rparr>)
       \<and> bufferPool (snd (getBuffer blk s)) = bufferPool s
       \<and> (fst (getBuffer blk s) = nullptr \<and> heap (snd (getBuffer blk s)) = heap s
          \<or> fst (getBuffer blk s) = fst blk \<and> fst blk \<noteq> nullptr \<and> heap s (fst blk) = None
            \<and> length (snd blk) = bufferSize s
            \<and> heap (snd (getBuffer blk s)) = (heap s)(fst blk \<mapsto> snd blk))"
  using getBuffer_fallback [OF assms, of blk]
  by (cases blk) (simp add: heap_caps_malloc_def)

theorem getBuffer_exhausted_witness:
  "list_all inUse (bufferPool exhausted)
   \<and> getBuffer (0, []) exhausted = (nullptr, exhausted\<lparr>heap := heap exhausted\<rparr>)
   \<and> fst (getBuffer (16, replicate SPI_BUFFER_SIZE 0xFF) exhausted) = nullptr
   \<and> heap (snd (getBuffer (64, replicate SPI_BUFFER_SIZE 0xFF) exhausted)) 64
       = Some (replicate SPI_BUFFER_SIZE 0xFF)"
  using getBuffer_exhausted [of exhausted "(0, [])"]
    getBuffer_exhausted [of exhausted "(16, replicate SPI_BUFFER_SIZE 0xFF)"]
    getBuffer_exhausted [of exhausted "(64, replicate SPI_BUFFER_SIZE 0xFF)"]
  by (simp add: exhausted_fields heap_caps_malloc_def fresh_pool_heap)

text \<open>
  \<^verbatim>\<open>getBuffer\<close> marks what it hands out: in the state it leaves, every pool entry with the
  returned pointer is in use.
\<close>

lemma getBuffer_marks:
  assumes ok: "pool_ok s" and b: "b \<in> set (bufferPool (snd (getBuffer blk s)))"
    "data b \<noteq> nullptr" and ret: "data b = fst (getBuffer blk s)"
  shows "inUse b"
proof (cases "getBuffer_scan (bufferPool s)")
  case None
  obtain p h1 where m: "heap_caps_malloc (bufferSize s) blk (heap s) = (p, h1)"
    by (cases "heap_caps_malloc (bufferSize s) blk (heap s)")
  with None have r: "fst (getBuffer blk s) = p" "bufferPool (snd (getBuffer blk s)) = bufferPool s"
    by (simp_all add: getBuffer_def)
  with heap_caps_malloc_cases [OF m] ret b(2) have "heap s (data b) = None" by auto
  with ok b r show ?thesis by (auto simp: pool_ok_def)
next
  case (Some r)
  obtain p bs' where r: "r = (p, bs')" by (cases r)
  from getBuffer_scan_Some [OF Some [unfolded r]] obtain i where
    i: "i < length (bufferPool s)" "data (bufferPool s ! i) = p"
    and bs': "bs' = (bufferPool s)[i := (bufferPool s ! i)\<lparr>inUse := True\<rparr>]"
    by blast
  from Some r have res: "fst (getBuffer blk s) = p" "bufferPool (snd (getBuffer blk s)) = bs'"
    by (simp_all add: getBuffer_def)
  have marked: "(bufferPool s ! i)\<lparr>inUse := True\<rparr> \<in> set bs'"
    unfolding bs' using i by (simp add: set_update_memI)
  have uniq: "distinct (filter (\<lambda>a. a \<noteq> nullptr) (map data bs'))"
    using getBuffer_pool_ok [OF ok, of blk] by (simp add: pool_ok_def res)
  have "b = (bufferPool s ! i)\<lparr>inUse := True\<rparr>"
    using pool_pointer_unique [OF uniq b(1) [unfolded res] marked] ret res i b(2) by simp
  then show ?thesis by simp
qed

lemma getBuffer_owned:
  assumes ok: "pool_ok s" and p: "fst (getBuffer blk s) = p" "p \<noteq> nullptr"
  shows "owned (snd (getBuffer blk s)) p"
proof -
  have "heap (snd (getBuffer blk s)) p \<noteq> None"
  proof (cases "getBuffer_scan (bufferPool s)")
    case None
    obtain q h1 where m: "heap_caps_malloc (bufferSize s) blk (heap s) = (q, h1)"
      by (cases "heap_caps_malloc (bufferSize s) blk (heap s)")
    with None have "fst (getBuffer blk s) = q" "heap (snd (getBuffer blk s)) = h1"
      by (simp_all add: getBuffer_def)
    with heap_caps_malloc_cases [OF m] p show ?thesis by auto
  next
    case (Some r)
    obtain q bs' where r: "r = (q, bs')" by (cases r)
    from getBuffer_scan_Some [OF Some [unfolded r]] obtain i where
      i: "i < length (bufferPool s)" "data (bufferPool s ! i) = q" by blast
    from Some r have "fst (getBuffer blk s) = q" "heap (snd (getBuffer blk s)) = heap s"
      by (simp_all add: getBuffer_def)
    moreover have "bufferPool s ! i \<in> set (bufferPool s)" using i by simp
    with ok have "data (bufferPool s ! i) \<noteq> nullptr \<longrightarrow>
        (\<exists>bs. heap s (data (bufferPool s ! i)) = Some bs \<and> length bs = bufferSize s)"
      unfolding pool_ok_def by blast
    ultimately show ?thesis using i p by auto
  qed
  moreover have "inUse b" if "b \<in> set (bufferPool (snd (getBuffer blk s)))" "data b = p" for b
    using getBuffer_marks [OF ok that(1)] that(2) p by simp
  ultimately show ?thesis using p by (simp add: owned_def list_all_iff)
qed

lemma heap_write_defined: "(heap_write q f h p = None) = (h p = None)"
  by (simp add: heap_write_def split: option.splits)

lemma step_keeps_owned:
  assumes "owned s p" and "c \<noteq> Return p"
  shows "owned (step c s) p"
proof (cases c)
  case (Get blk)
  show ?thesis
  proof (cases "getBuffer_scan (bufferPool s)")
    case None
    obtain q h1 where m: "heap_caps_malloc (bufferSize s) blk (heap s) = (q, h1)"
      by (cases "heap_caps_malloc (bufferSize s) blk (heap s)")
    with None have "bufferPool (step c s) = bufferPool s" "heap (step c s) = h1"
      by (simp_all add: Get getBuffer_def)
    with heap_caps_malloc_cases [OF m] assms(1) show ?thesis
      by (auto simp: owned_def)
  next
    case (Some r)
    obtain q bs' where r: "r = (q, bs')" by (cases r)
    from getBuffer_scan_Some [OF Some [unfolded r]] obtain i where
      i: "i < length (bufferPool s)"
      and bs': "bs' = (bufferPool s)[i := (bufferPool s ! i)\<lparr>inUse := True\<rparr>]"
      by blast
    from Some r have res: "heap (step c s) = heap s" "bufferPool (step c s) = bs'"
      by (simp_all add: Get getBuffer_def)
    have "inUse b" if "b \<in> set bs'" and "data b = p" for b
      using mark_member [OF that(1) [unfolded bs'] i] that(2) assms(1)
      by (auto simp: owned_def list_all_iff)
    with assms(1) show ?thesis by (auto simp: owned_def list_all_iff res)
  qed
next
  case (Fill q src n)
  with assms(1) show ?thesis by (simp add: owned_def heap_write_defined)
next
  case (Return q)
  with assms(2) have qp: "q \<noteq> p" by simp
  show ?thesis
  proof (cases "returnBuffer_scan (bufferPool s) q")
    case None
    then have "bufferPool (step c s) = bufferPool s"
      "heap (step c s) = heap_caps_free q (heap s)"
      by (simp_all add: Return returnBuffer_def)
    with assms(1) qp show ?thesis by (simp add: owned_def heap_caps_free_def)
  next
    case (Some bs')
    from returnBuffer_scan_Some [OF Some] obtain i where
      i: "i < length (bufferPool s)" and q: "data (bufferPool s ! i) = q"
      and bs': "bs' = (bufferPool s)[i := (bufferPool s ! i)\<lparr>inUse := False\<rparr>]"
      by blast
    have res: "bufferPool (step c s) = bs'"
      "heap (step c s) = heap_write q (\<lambda>bs. memset bs 0 (bufferSize s)) (heap s)"
      using Some by (simp_all add: Return returnBuffer_def)
    have "inUse b" if "b \<in> set bs'" and "data b = p" for b
      using mark_member [OF that(1) [unfolded bs'] i] that(2) assms(1) q qp
      by (auto simp: owned_def list_all_iff)
    with assms(1) show ?thesis by (auto simp: owned_def list_all_iff res heap_write_defined)
  qed
qed

lemma run_keeps_owned:
  "owned s p \<Longrightarrow> Return p \<notin> set cs \<Longrightarrow> owned (run cs s) p"
proof (induction cs arbitrary: s)
  case Nil
  then show ?case by simp
next
  case (Cons c cs)
  from Cons.prems have "c \<noteq> Return p" "Return p \<notin> set cs" by auto
  with Cons.IH [of "step c s"] step_keeps_owned [OF Cons.prems(1)] show ?case by simp
qed

text \<open>A buffer that has an owner is not handed out.\<close>

lemma owned_not_handed_out:
  assumes "owned s p"
  shows "fst (getBuffer blk s) \<noteq> p"
proof (cases "getBuffer_scan (bufferPool s)")
  case None
  obtain q h1 where m: "heap_caps_malloc (bufferSize s) blk (heap s) = (q, h1)"
    by (cases "heap_caps_malloc (bufferSize s) blk (heap s)")
  with None have "fst (getBuffer blk s) = q" by (simp add: getBuffer_def)
  with heap_caps_malloc_cases [OF m] assms show ?thesis by (auto simp: owned_def)
next
  case (Some r)
  obtain q bs' where r: "r = (q, bs')" by (cases r)
  from getBuffer_scan_Some [OF Some [unfolded r]] obtain i where
    i: "i < length (bufferPool s)" "data (bufferPool s ! i) = q" "\<not> inUse (bufferPool s ! i)"
    by blast
  from Some r have "fst (getBuffer blk s) = q" by (simp add: getBuffer_def)
  moreover have "bufferPool s ! i \<in> set (bufferPool s)" using i by simp
  ultimately show ?thesis using assms i by (auto simp: owned_def list_all_iff)
qed

text \<open>
  C8. For every finite sequence of \<^verbatim>\<open>getBuffer\<close> and \<^verbatim>\<open>returnBuffer\<close> calls from the
  constructed pool, also with the holders' writes into their buffers in between:
  \<^verbatim>\<open>getBuffer\<close> never returns the pointer of a pool entry whose in-use flag is set, and it
  sets the flag of the entry whose pointer it returns; a buffer that a \<^verbatim>\<open>getBuffer\<close> call of
  the sequence handed out and that has not been passed to \<^verbatim>\<open>returnBuffer\<close> since is not
  handed out by the next \<^verbatim>\<open>getBuffer\<close> call, so no buffer has two owners at a time; and once
  a pool buffer has been passed to \<^verbatim>\<open>returnBuffer\<close>, all its bytes are zero after every
  further run of calls in which no \<^verbatim>\<open>getBuffer\<close> call returns it.
\<close>

theorem pool_exclusive_and_zeroed:
  assumes "legal calls (SPISlaveHandler blk)"
  shows "(\<forall>b \<in> set (bufferPool (run calls (SPISlaveHandler blk))).
            data b \<noteq> nullptr
            \<and> data b = fst (getBuffer blk' (run calls (SPISlaveHandler blk)))
            \<longrightarrow> \<not> inUse b)
       \<and> (\<forall>pre p post.
            calls = pre @ Return p # post \<and> p \<noteq> nullptr
            \<and> p \<in> set (map data (bufferPool (SPISlaveHandler blk)))
            \<and> \<not> returned post (run (pre @ [Return p]) (SPISlaveHandler blk)) p
            \<longrightarrow> heap (run calls (SPISlaveHandler blk)) p
                  = Some (replicate SPI_BUFFER_SIZE 0))
       \<and> (\<forall>b \<in> set (bufferPool (snd (getBuffer blk' (run calls (SPISlaveHandler blk))))).
            data b \<noteq> nullptr
            \<and> data b = fst (getBuffer blk' (run calls (SPISlaveHandler blk)))
            \<longrightarrow> inUse b)
       \<and> (\<forall>pre blk1 post.
            calls = pre @ Get blk1 # post
            \<and> fst (getBuffer blk1 (run pre (SPISlaveHandler blk))) \<noteq> nullptr
            \<and> Return (fst (getBuffer blk1 (run pre (SPISlaveHandler blk)))) \<notin> set post
            \<longrightarrow> fst (getBuffer blk' (run calls (SPISlaveHandler blk)))
                  \<noteq> fst (getBuffer blk1 (run pre (SPISlaveHandler blk))))"
proof (intro conjI ballI allI impI)
  define s0 where "s0 = SPISlaveHandler blk"
  have ok: "pool_ok (run calls s0)"
    using assms by (simp add: s0_def run_pool_ok SPISlaveHandler_pool_ok)
  {
    fix b
    assume "b \<in> set (bufferPool (run calls (SPISlaveHandler blk)))"
      and "data b \<noteq> nullptr
            \<and> data b = fst (getBuffer blk' (run calls (SPISlaveHandler blk)))"
    then show "\<not> inUse b"
      using getBuffer_not_in_use [OF ok, of b blk'] by (simp add: s0_def)
  }
  {
    fix pre p post
    assume a: "calls = pre @ Return p # post \<and> p \<noteq> nullptr
            \<and> p \<in> set (map data (bufferPool (SPISlaveHandler blk)))
            \<and> \<not> returned post (run (pre @ [Return p]) (SPISlaveHandler blk)) p"
    define s1 where "s1 = run pre s0"
    define s2 where "s2 = returnBuffer p s1"
    from a assms have "legal pre s0" by (simp add: s0_def legal_append)
    then have "pool_ok s1" by (simp add: s1_def s0_def run_pool_ok SPISlaveHandler_pool_ok)
    with a have "free_in s2 p" by (simp add: s2_def returnBuffer_frees)
    moreover have s2: "run (pre @ [Return p]) s0 = s2"
      by (simp add: run_append s1_def s2_def)
    ultimately have "free_in (run post s2) p"
      using a by (simp add: run_keeps_free s0_def)
    moreover have fin: "run calls s0 = run post s2"
      using a by (simp add: run_append s1_def s2_def)
    ultimately have free: "free_in (run calls s0) p" by simp
    from a have "p \<in> set (map data (bufferPool (run calls s0)))"
      by (simp add: run_pointers s0_def)
    then obtain b where b: "b \<in> set (bufferPool (run calls s0))" "data b = p" by auto
    with free have "\<not> inUse b" by (auto simp: free_in_def list_all_iff)
    with ok b a have "heap (run calls s0) p = Some (replicate (bufferSize (run calls s0)) 0)"
      by (auto simp: pool_ok_def)
    then show "heap (run calls (SPISlaveHandler blk)) p = Some (replicate SPI_BUFFER_SIZE 0)"
      by (simp add: s0_def run_bufferSize SPISlaveHandler_bufferSize)
  }
  {
    fix b
    assume "b \<in> set (bufferPool (snd (getBuffer blk' (run calls (SPISlaveHandler blk)))))"
      and "data b \<noteq> nullptr
            \<and> data b = fst (getBuffer blk' (run calls (SPISlaveHandler blk)))"
    then show "inUse b"
      using getBuffer_marks [OF ok, of b blk'] by (simp add: s0_def)
  }
  {
    fix pre blk1 post
    assume a: "calls = pre @ Get blk1 # post
            \<and> fst (getBuffer blk1 (run pre (SPISlaveHandler blk))) \<noteq> nullptr
            \<and> Return (fst (getBuffer blk1 (run pre (SPISlaveHandler blk)))) \<notin> set post"
    define s1 where "s1 = run pre s0"
    define p where "p = fst (getBuffer blk1 s1)"
    from a assms have "legal pre s0" by (simp add: s0_def legal_append)
    then have "pool_ok s1" by (simp add: s1_def s0_def run_pool_ok SPISlaveHandler_pool_ok)
    moreover from a have "p \<noteq> nullptr" by (simp add: p_def s1_def s0_def)
    ultimately have "owned (snd (getBuffer blk1 s1)) p"
      by (simp add: getBuffer_owned p_def)
    moreover from a have "Return p \<notin> set post" by (simp add: p_def s1_def s0_def)
    ultimately have "owned (run post (snd (getBuffer blk1 s1))) p"
      by (rule run_keeps_owned)
    moreover have "run calls s0 = run post (snd (getBuffer blk1 s1))"
      using a by (simp add: run_append s1_def)
    ultimately have "fst (getBuffer blk' (run calls s0)) \<noteq> p"
      by (simp add: owned_not_handed_out)
    then show "fst (getBuffer blk' (run calls (SPISlaveHandler blk)))
                  \<noteq> fst (getBuffer blk1 (run pre (SPISlaveHandler blk)))"
      by (simp add: p_def s1_def s0_def)
  }
qed

theorem pool_exclusive_and_zeroed_witness:
  "legal [Get (0, []), Fill 16 [0x01, 0x02, 0x03] 3, Return 16] fresh
   \<and> heap (run [Get (0, []), Fill 16 [0x01, 0x02, 0x03] 3] fresh) 16
       = Some ([0x01, 0x02, 0x03] @ replicate (SPI_BUFFER_SIZE - 3) 0)
   \<and> heap (run [Get (0, []), Fill 16 [0x01, 0x02, 0x03] 3, Return 16] fresh) 16
       = Some (replicate SPI_BUFFER_SIZE 0)
   \<and> legal [Get (0, []), Get (0, [])] fresh
   \<and> fst (getBuffer (0, []) fresh) = 16
   \<and> fst (getBuffer (0, []) (run [Get (0, [])] fresh)) = 17
   \<and> fst (getBuffer (0, []) (run [Get (0, []), Get (0, [])] fresh)) = 18
   \<and> fst (getBuffer (0, []) (run [Get (0, []), Get (0, [])] fresh)) \<noteq> 17
   \<and> bufferPool (run [Get (0, []), Get (0, [])] fresh) ! 1 = \<lparr>data = 17, inUse = True\<rparr>"
proof -
  have l: "legal [Get (0, []), Fill 16 [0x01, 0x02, 0x03] 3, Return 16]
             (SPISlaveHandler (\<lambda>i. (16 + i, replicate SPI_BUFFER_SIZE 0)))"
    unfolding fresh_def [symmetric]
    by (simp add: getBuffer_def fresh_pool_heap fresh_fields SPI_BUFFER_SIZE_def)
  have l2: "legal [Get (0, []), Get (0, [])]
             (SPISlaveHandler (\<lambda>i. (16 + i, replicate SPI_BUFFER_SIZE 0)))"
    by simp
  have "heap (run [Get (0, []), Fill 16 [0x01, 0x02, 0x03] 3] fresh) 16
       = Some ([0x01, 0x02, 0x03] @ replicate (SPI_BUFFER_SIZE - 3) 0)"
    by (simp add: getBuffer_def fresh_pool_heap heap_write_def memcpy_def)
  moreover from pool_exclusive_and_zeroed [OF l, THEN conjunct2, THEN conjunct1, rule_format,
      of "[Get (0, []), Fill 16 [0x01, 0x02, 0x03] 3]" 16 "[]"]
  have "heap (run [Get (0, []), Fill 16 [0x01, 0x02, 0x03] 3, Return 16] fresh) 16
       = Some (replicate SPI_BUFFER_SIZE 0)"
    by (simp add: fresh_def [symmetric] fresh_pool_heap)
  moreover have g: "fst (getBuffer (0, []) fresh) = 16"
    "fst (getBuffer (0, []) (run [Get (0, [])] fresh)) = 17"
    "fst (getBuffer (0, []) (run [Get (0, []), Get (0, [])] fresh)) = 18"
    "bufferPool (run [Get (0, []), Get (0, [])] fresh) ! 1 = \<lparr>data = 17, inUse = True\<rparr>"
    by (simp_all add: getBuffer_def fresh_pool_heap)
  moreover from pool_exclusive_and_zeroed [OF l2, THEN conjunct2, THEN conjunct2,
      THEN conjunct2, rule_format, of "[Get (0, [])]" "(0, [])" "[]" "(0, [])"]
  have "fst (getBuffer (0, []) (run [Get (0, []), Get (0, [])] fresh)) \<noteq> 17"
    using g(2) by (simp add: fresh_def [symmetric])
  ultimately show ?thesis using l l2 by (simp add: fresh_def [symmetric])
qed

subsection \<open>A failed initialisation\<close>

text \<open>
  The queuing loop succeeds exactly when every submission does; when one fails after the
  driver has started, \<^verbatim>\<open>init\<close> returns false with the driver still installed.
\<close>

lemma init_queue_loop_result:
  "fst (init_queue_loop is rq s) = list_all (\<lambda>i. rq i = ESP_OK) is"
  by (induction "is" arbitrary: s) (simp_all add: spi_slave_queue_trans_def)

lemma init_queue_failure:
  assumes "\<not> initialized s" and "i < 3" and "rq i \<noteq> ESP_OK"
  shows "\<not> fst (init sck miso mosi cs md ESP_OK rq s)"
    and "\<not> initialized (snd (init sck miso mosi cs md ESP_OK rq s))"
    and "installed (hspi (snd (init sck miso mosi cs md ESP_OK rq s)))"
proof -
  have "\<not> list_all (\<lambda>i. rq i = ESP_OK) [0..<3]"
    using assms(2,3) by (auto simp: list_all_iff)
  then have f: "\<not> fst (init_queue_loop [0..<3] rq t)" for t
    by (simp add: init_queue_loop_result)
  show "\<not> fst (init sck miso mosi cs md ESP_OK rq s)"
    using assms(1) f by (simp add: init_def Let_def case_prod_beta spi_slave_initialize_def)
  show "\<not> initialized (snd (init sck miso mosi cs md ESP_OK rq s))"
    using assms(1) f
    by (simp add: init_def Let_def case_prod_beta spi_slave_initialize_def init_queue_loop_frame)
  show "installed (hspi (snd (init sck miso mosi cs md ESP_OK rq s)))"
    using assms(1) f
    by (simp add: init_def Let_def case_prod_beta spi_slave_initialize_def init_queue_loop_frame)
qed

text \<open>
  C6, evaluated on a freshly constructed handler: the driver starts and the first
  descriptor submission fails. \<^verbatim>\<open>init\<close> returns false and \<open>initialized\<close> stays false, but
  the driver is left installed and the pin fields hold the new configuration.
\<close>

theorem init_queue_failure_leaves_driver_installed:
  "\<not> initialized fresh \<and> \<not> installed (hspi fresh) \<and> sckPin fresh = 0
   \<and> \<not> fst (init (- 1) (- 1) (- 1) (- 1) SPI_MODE0 ESP_OK (\<lambda>i. ESP_FAIL) fresh)
   \<and> \<not> initialized (snd (init (- 1) (- 1) (- 1) (- 1) SPI_MODE0 ESP_OK (\<lambda>i. ESP_FAIL) fresh))
   \<and> installed (hspi (snd (init (- 1) (- 1) (- 1) (- 1) SPI_MODE0 ESP_OK (\<lambda>i. ESP_FAIL) fresh)))
   \<and> sckPin (snd (init (- 1) (- 1) (- 1) (- 1) SPI_MODE0 ESP_OK (\<lambda>i. ESP_FAIL) fresh)) = 12"
  by (simp add: init_def fresh_fields spi_slave_initialize_def spi_slave_queue_trans_def
      upt_rec ESP_OK_def ESP_FAIL_def SPI_SCK_PIN_def)

end
